theory Spec2Isabelle
  imports Complex_Main
begin

section \<open>Battery monitor: ratio extraction, site check, cycle, alerting, scheduling\<close>

text \<open>
  The repository is a family of Selenium scripts that log into a dashboard and read, for
  every configured site, a ratio \<open>N/M\<close> of connected batteries. This development embeds the
  parts of the scripts that the specification talks about:
  \<^item> \<open>_extract_exact_ratio\<close> of \<open>02.09 all most sites.py\<close> (defined twice there,
    with the same behaviour; the second definition is the one in force) and of
    \<open>04.09 ALL site with popup.py\<close>, with the regular expression
    \<^verbatim>\<open>\b(\d+)\s*/\s*(\d+)\b\<close> written out as a scanner;
  \<^item> the climb to the card and \<open>check_site_batteries\<close> of the popup script (the first
    script of the 04.09 file), \<open>check_site_batteries\<close> of the 02.09 script, the older
    \<open>check_site_batteries\<close> that follows in the 04.09 file (called the legacy script
    here), and \<open>get_nm_for_site\<close> of the single-pass script;
  \<^item> \<open>check_all_sites_once\<close> of these scripts, \<open>popup_disconnected\<close>,
    \<open>sleep_with_stop\<close> and \<open>main_continuous\<close>.

  Python strings are sequences of code points. A text is modelled as a \<open>string\<close> whose
  characters stand for the code points 0..255; the character classes below are those of
  Python 3's \<open>re\<close> module (str patterns) on that range. Python integers are unbounded and
  are modelled as \<open>int\<close>; the limit that \<open>int\<close> puts on the length of a digit string is
  not modelled. Login, driver setup and logging are outside the model.
\<close>

subsection \<open>Character classes of the regular expression\<close>

definition code :: "char \<Rightarrow> nat" where
  "code c = of_char c"

text \<open>\<^verbatim>\<open>\d\<close>: the decimal digits.\<close>

definition is_digit :: "char \<Rightarrow> bool" where
  "is_digit c \<longleftrightarrow> 48 \<le> code c \<and> code c \<le> 57"

text \<open>\<^verbatim>\<open>\s\<close>, which is also what \<open>str.strip()\<close> removes and \<open>str.split()\<close> splits on.\<close>

definition is_space :: "char \<Rightarrow> bool" where
  "is_space c \<longleftrightarrow>
     (9 \<le> code c \<and> code c \<le> 13) \<or> (28 \<le> code c \<and> code c \<le> 32) \<or> code c = 133 \<or> code c = 160"

text \<open>\<^verbatim>\<open>\w\<close>: alphanumeric characters and the underscore; \<^verbatim>\<open>\b\<close> is a change of this class.\<close>

definition is_word :: "char \<Rightarrow> bool" where
  "is_word c \<longleftrightarrow>
     (48 \<le> code c \<and> code c \<le> 57) \<or> (65 \<le> code c \<and> code c \<le> 90) \<or> code c = 95 \<or>
     (97 \<le> code c \<and> code c \<le> 122) \<or> code c = 170 \<or> code c = 178 \<or> code c = 179 \<or>
     code c = 181 \<or> code c = 185 \<or> code c = 186 \<or> (188 \<le> code c \<and> code c \<le> 190) \<or>
     (192 \<le> code c \<and> code c \<le> 214) \<or> (216 \<le> code c \<and> code c \<le> 246) \<or> 248 \<le> code c"

subsection \<open>Decimal numerals: \<open>int(...)\<close> on a digit group and \<open>str(...)\<close>\<close>

definition digit_val :: "char \<Rightarrow> int" where
  "digit_val c = int (code c) - 48"

text \<open>\<open>int(ds)\<close> for a non-empty group of decimal digits (leading zeros are accepted).\<close>

definition int_of_digits :: "string \<Rightarrow> int" where
  "int_of_digits ds = foldl (\<lambda>a c. 10 * a + digit_val c) 0 ds"

definition digit_char :: "nat \<Rightarrow> char" where
  "digit_char k = char_of (48 + k)"

fun str_nat :: "nat \<Rightarrow> string" where
  "str_nat n = (if n < 10 then [digit_char n] else str_nat (n div 10) @ [digit_char (n mod 10)])"

declare str_nat.simps [simp del]

text \<open>\<open>str(i)\<close>, as the f-strings of the scripts render an integer.\<close>

definition str_int :: "int \<Rightarrow> string" where
  "str_int i = (if i < 0 then CHR ''-'' # str_nat (nat (- i)) else str_nat (nat i))"

subsection \<open>The scanner for \<^verbatim>\<open>\b(\d+)\s*/\s*(\d+)\b\<close>\<close>

text \<open>
  \<open>match_at prev_word s\<close> tries to match the pattern at the start of \<open>s\<close>, where
  \<open>prev_word\<close> says whether the character before \<open>s\<close> is a word character (False at the
  start of the text). Every quantifier of the pattern is greedy and is followed by a
  character class disjoint from its own, so backtracking never finds a match that the
  maximal choice misses: the leading \<^verbatim>\<open>\b\<close> wants a non-word character before the first
  digit, and the trailing \<^verbatim>\<open>\b\<close> wants no word character after the last one.
  The result is the two groups and the unread rest of the text.
\<close>

definition match_at :: "bool \<Rightarrow> string \<Rightarrow> ((string \<times> string) \<times> string) option" where
  "match_at prev_word s =
     (if prev_word then None
      else let ds1 = takeWhile is_digit s; r1 = dropWhile is_digit s in
        if ds1 = [] then None
        else (case dropWhile is_space r1 of
                [] \<Rightarrow> None
              | c # r3 \<Rightarrow>
                  if c \<noteq> CHR ''/'' then None
                  else let r4 = dropWhile is_space r3;
                           ds2 = takeWhile is_digit r4;
                           r5 = dropWhile is_digit r4 in
                    if ds2 = [] then None
                    else (case r5 of
                            [] \<Rightarrow> Some ((ds1, ds2), r5)
                          | c' # _ \<Rightarrow> if is_word c' then None else Some ((ds1, ds2), r5))))"

text \<open>
  \<open>re.findall\<close>: the text is scanned from left to right; after a match the scan goes on
  behind it (matches do not overlap), otherwise one character further.
\<close>

function scan :: "bool \<Rightarrow> string \<Rightarrow> (string \<times> string) list" where
  "scan prev_word [] = []"
| "scan prev_word (c # cs) =
     (case match_at prev_word (c # cs) of
        Some (g, rest) \<Rightarrow> g # scan True rest
      | None \<Rightarrow> scan (is_word c) cs)"
  by pat_completeness auto
termination
proof (relation "measure (\<lambda>(p, s). length s)")
  show "wf (measure (\<lambda>(p, s). length s))" by simp
next
  fix prev_word :: bool and c :: char and cs :: string
  assume "match_at prev_word (c # cs) = None"
  show "((is_word c, cs), (prev_word, c # cs)) \<in> measure (\<lambda>(p, s). length s)" by simp
next
  fix prev_word :: bool and c :: char and cs rest :: string and x2 :: "(string \<times> string) \<times> string"
    and g :: "string \<times> string"
  assume m: "match_at prev_word (c # cs) = Some x2" and x2: "(g, rest) = x2"
  have a: "length (dropWhile P xs) \<le> length xs" for P and xs :: string
    by (simp add: length_dropWhile_le)
  from m x2 obtain r3
    where r3: "dropWhile is_space (dropWhile is_digit (c # cs)) = CHR ''/'' # r3"
      and rest: "rest = dropWhile is_digit (dropWhile is_space r3)"
    by (auto simp: match_at_def Let_def split: if_splits list.splits)
  have "length rest \<le> length r3"
    unfolding rest by (meson a le_trans)
  moreover have "Suc (length r3) \<le> length (c # cs)"
    using a [of is_space "dropWhile is_digit (c # cs)"] a [of is_digit "c # cs"] r3 by simp
  ultimately show "((True, rest), (prev_word, c # cs)) \<in> measure (\<lambda>(p, s). length s)" by simp
qed

definition findall :: "string \<Rightarrow> (string \<times> string) list" where
  "findall text = scan False text"

subsection \<open>\<open>_extract_exact_ratio\<close>\<close>

text \<open>\<open>max(xs, key=lambda p: p[0])\<close> on a non-empty list: the first element with the largest key.\<close>

fun max_by_fst :: "(int \<times> int) \<Rightarrow> (int \<times> int) list \<Rightarrow> (int \<times> int)" where
  "max_by_fst best [] = best"
| "max_by_fst best (p # ps) = max_by_fst (if fst best < fst p then p else best) ps"

text \<open>The f-string \<^verbatim>\<open>f"{n}/{d}"\<close>.\<close>

definition fmt_ratio :: "int \<Rightarrow> int \<Rightarrow> string" where
  "fmt_ratio n d = str_int n @ ''/'' @ str_int d"

definition ratio_pairs :: "string \<Rightarrow> (int \<times> int) list" where
  "ratio_pairs text = map (\<lambda>(n, d). (int_of_digits n, int_of_digits d)) (findall text)"

text \<open>
  The function of lines 162-175 (02.09) and 142-155 (04.09); None is Python's None.
  \<open>sane or exact\<close> is \<open>sane\<close> unless it is empty.
\<close>

definition extract_exact_ratio :: "string \<Rightarrow> int \<Rightarrow> string option" where
  "extract_exact_ratio text expected_total =
     (if text = [] then None
      else let pairs = ratio_pairs text;
               exact = filter (\<lambda>(n, d). d = expected_total) pairs in
        if exact = [] then None
        else let sane = filter (\<lambda>p. fst p \<le> expected_total) exact;
                 chosen = (if sane \<noteq> [] then sane else exact);
                 (n, d) = max_by_fst (hd chosen) (tl chosen)
             in Some (fmt_ratio n d))"

subsection \<open>String helpers of Python used by the scripts\<close>

text \<open>\<open>s.strip()\<close>: leading and trailing whitespace removed.\<close>

definition py_strip :: "string \<Rightarrow> string" where
  "py_strip s = rev (dropWhile is_space (rev (dropWhile is_space s)))"

text \<open>\<open>s.split("/")\<close>: the pieces between the separators; never an empty list.\<close>

fun split_on :: "char \<Rightarrow> string \<Rightarrow> string list" where
  "split_on sep [] = [[]]"
| "split_on sep (c # cs) =
     (if c = sep then [] # split_on sep cs
      else (case split_on sep cs of [] \<Rightarrow> [[c]] | p # ps \<Rightarrow> (c # p) # ps))"

text \<open>\<open>"\n".join(lines)\<close>.\<close>

fun join_lines :: "string list \<Rightarrow> string" where
  "join_lines [] = []"
| "join_lines [l] = l"
| "join_lines (l # m # ls) = l @ [CHR 0x0A] @ join_lines (m # ls)"

text \<open>The exceptions that the modelled code raises or catches.\<close>

datatype exn =
    TimeoutException
  | NoSuchElementException
  | StaleElementReferenceException
  | ValueError
  | TypeError

text \<open>
  \<open>int(s)\<close> on a string: surrounding whitespace is dropped, one sign is allowed, the
  digits may be separated by single underscores; anything else is a ValueError. The
  whitespace that \<open>int\<close> drops is narrower than that of \<open>strip()\<close>: the separators
  28..31 are an error here.
\<close>

definition is_int_space :: "char \<Rightarrow> bool" where
  "is_int_space c \<longleftrightarrow>
     (9 \<le> code c \<and> code c \<le> 13) \<or> code c = 32 \<or> code c = 133 \<or> code c = 160"

definition int_strip :: "string \<Rightarrow> string" where
  "int_strip s = rev (dropWhile is_int_space (rev (dropWhile is_int_space s)))"

fun digits_ok :: "string \<Rightarrow> bool" where
  "digits_ok [] = False"
| "digits_ok [c] = is_digit c"
| "digits_ok (c # d # cs) =
     (is_digit c \<and> (if d = CHR ''_'' then cs \<noteq> [] \<and> digits_ok cs else digits_ok (d # cs)))"

definition py_int :: "string \<Rightarrow> exn + int" where
  "py_int s =
     (let t = int_strip s;
          neg = (t \<noteq> [] \<and> hd t = CHR ''-'');
          body = (if t \<noteq> [] \<and> (hd t = CHR ''-'' \<or> hd t = CHR ''+'') then tl t else t)
      in if digits_ok body
         then Inr ((if neg then - 1 else 1) * int_of_digits (filter is_digit body))
         else Inl ValueError)"

subsection \<open>The page as the driver answers queries about it\<close>

text \<open>
  An element handle is a number. A page is the record of what the Selenium driver answers
  to each query the scripts make; the page does not change during one site check.
  \<^item> \<open>find_exact l\<close>: \<open>wait.until(presence_of_element_located(...))\<close> for
    \<^verbatim>\<open>//*[normalize-space(text())='l']\<close>; None is the TimeoutException of the wait.
  \<^item> \<open>parent_of e\<close>: \<open>e.find_element(By.XPATH, "./ancestor::*[1]")\<close>; None is the
    NoSuchElementException at the document root.
  \<^item> \<open>rect_of e\<close>: \<open>getattr(e, "rect", None) or {}\<close> as (width, height); None is the
    empty dictionary, whose \<open>get\<close> yields the default 0 for both.
  \<^item> \<open>text_stale e\<close>: reading the text of \<open>e\<close> raises StaleElementReferenceException.
  \<^item> \<open>inner_text e\<close>, \<open>vis_text e\<close>: \<open>e.get_attribute("innerText")\<close> (which may be
    None) and \<open>e.text\<close>.
  \<^item> \<open>slash_descendants e\<close>:
    \<open>e.find_elements(By.XPATH, ".//*[contains(normalize-space(.), '/')]")\<close>, in document order.
  \<^item> \<open>find_ci l\<close> (02.09 script): the wait for the first element whose text, in lower
    case, contains \<open>l\<close>; the script passes \<open>site_name.lower()\<close>.
  \<^item> \<open>class_ancestor_or_div e\<close> (02.09 script): the nearest ancestor whose class
    contains container, card or box, or which is a \<open>div\<close>; None is the
    NoSuchElementException.
  \<^item> \<open>descendants e\<close>: \<open>e.find_elements(By.XPATH, ".//*")\<close>.
  \<^item> \<open>doc_candidates n\<close>:
    \<open>driver.find_elements(By.XPATH, "//*[contains(normalize-space(), '/n')]")\<close>.
  \<^item> \<open>all_divs\<close>: \<open>driver.find_elements(By.XPATH, "//div[text()]")\<close>.
  \<^item> \<open>find_div_contains l\<close> (legacy script): the wait for
    \<^verbatim>\<open>//div[contains(text(), 'l')]\<close>.
  \<^item> \<open>find_total_text n\<close> (legacy script): the wait for
    \<^verbatim>\<open>//*[contains(text(), '/n')]\<close> anywhere in the document.
  \<^item> \<open>class_ancestor e\<close> (legacy script): the nearest ancestor whose class contains
    container, card or box.
  \<^item> \<open>total_descendants e n\<close> (legacy script):
    \<open>e.find_elements(By.XPATH, ".//*[contains(text(), '/n')]")\<close>.
\<close>

type_synonym elem = nat

record page =
  find_exact :: "string \<Rightarrow> elem option"
  parent_of :: "elem \<Rightarrow> elem option"
  rect_of :: "elem \<Rightarrow> (rat \<times> rat) option"
  text_stale :: "elem \<Rightarrow> bool"
  inner_text :: "elem \<Rightarrow> string option"
  vis_text :: "elem \<Rightarrow> string"
  slash_descendants :: "elem \<Rightarrow> elem list"
  find_ci :: "string \<Rightarrow> elem option"
  class_ancestor_or_div :: "elem \<Rightarrow> elem option"
  descendants :: "elem \<Rightarrow> elem list"
  doc_candidates :: "int \<Rightarrow> elem list"
  all_divs :: "elem list"
  find_div_contains :: "string \<Rightarrow> elem option"
  find_total_text :: "int \<Rightarrow> elem option"
  class_ancestor :: "elem \<Rightarrow> elem option"
  total_descendants :: "elem \<Rightarrow> int \<Rightarrow> elem list"

text \<open>\<open>(el.get_attribute("innerText") or el.text or "")\<close>.\<close>

definition read_text :: "'a page_scheme \<Rightarrow> elem \<Rightarrow> exn + string" where
  "read_text pg el =
     (if text_stale pg el then Inl StaleElementReferenceException
      else (case inner_text pg el of
              None \<Rightarrow> Inr (vis_text pg el)
            | Some s \<Rightarrow> Inr (if s \<noteq> [] then s else vis_text pg el)))"

subsection \<open>Climbing from the title to the card\<close>

text \<open>\<open>r.get("width", 0) > 220 and r.get("height", 0) > 140\<close>.\<close>

definition card_sized :: "(rat \<times> rat) option \<Rightarrow> bool" where
  "card_sized r = (case r of None \<Rightarrow> False | Some (w, h) \<Rightarrow> w > 220 \<and> h > 140)"

text \<open>
  The loop \<open>for _ in range(hops)\<close> of lines 172-180 of the popup script (\<open>hops = 10\<close>) and
  lines 105-113 of the single-pass script (\<open>hops = 8\<close>): \<open>Inr (Some card)\<close> is the
  \<open>break\<close>, \<open>Inr None\<close> the exhausted loop with \<open>card\<close> still None, \<open>Inl\<close> the
  exception of \<open>find_element\<close> when \<open>cur\<close> has no ancestor.
\<close>

fun climb :: "'a page_scheme \<Rightarrow> nat \<Rightarrow> elem \<Rightarrow> exn + elem option" where
  "climb pg 0 cur = Inr None"
| "climb pg (Suc k) cur =
     (case parent_of pg cur of
        None \<Rightarrow> Inl NoSuchElementException
      | Some parent \<Rightarrow>
          if card_sized (rect_of pg parent) then Inr (Some parent) else climb pg k parent)"

text \<open>The climb followed by \<open>if card is None: card = title.find_element(...)\<close>.\<close>

definition locate_card :: "'a page_scheme \<Rightarrow> nat \<Rightarrow> elem \<Rightarrow> exn + elem" where
  "locate_card pg hops title =
     (case climb pg hops title of
        Inl e \<Rightarrow> Inl e
      | Inr found \<Rightarrow>
          (case found of
             Some the_card \<Rightarrow> Inr the_card
           | None \<Rightarrow>
               (case parent_of pg title of
                  None \<Rightarrow> Inl NoSuchElementException
                | Some p \<Rightarrow> Inr p)))"

text \<open>
  The ancestor chain of an element as the driver reports it, up to \<open>k\<close> elements, nearest
  first: what the climb can see.
\<close>

fun ancestors :: "'a page_scheme \<Rightarrow> nat \<Rightarrow> elem \<Rightarrow> elem list" where
  "ancestors pg 0 el = []"
| "ancestors pg (Suc k) el =
     (case parent_of pg el of None \<Rightarrow> [] | Some p \<Rightarrow> p # ancestors pg k p)"

subsection \<open>\<open>check_site_batteries\<close> of the popup script (lines 157-202)\<close>

text \<open>Where a ratio was found: the return statement that produced it.\<close>

datatype stage = CardText | CardDescendant | DocumentScan | PartialDiv

text \<open>
  The loop over the slash-containing descendants (lines 191-200): a stale element and an
  empty text are skipped, the first ratio ends the loop.
\<close>

fun first_descendant_ratio :: "'a page_scheme \<Rightarrow> int \<Rightarrow> elem list \<Rightarrow> string option" where
  "first_descendant_ratio pg expected_total [] = None"
| "first_descendant_ratio pg expected_total (el # els) =
     (case read_text pg el of
        Inl e \<Rightarrow> first_descendant_ratio pg expected_total els
      | Inr t \<Rightarrow>
          let val = py_strip t in
          if val = [] then first_descendant_ratio pg expected_total els
          else (case extract_exact_ratio val expected_total of
                  Some r \<Rightarrow> Some r
                | None \<Rightarrow> first_descendant_ratio pg expected_total els))"

text \<open>
  The function with each return tagged by its stage. The exception of the scroll script
  is swallowed by the source and has no effect here.
\<close>

definition check_site_batteries_staged ::
  "'a page_scheme \<Rightarrow> string \<Rightarrow> int \<Rightarrow> exn + (stage \<times> string)" where
  "check_site_batteries_staged pg site_name expected_total =
     (case find_exact pg site_name of
        None \<Rightarrow> Inl TimeoutException
      | Some title \<Rightarrow>
          (case locate_card pg 10 title of
             Inl e \<Rightarrow> Inl e
           | Inr the_card \<Rightarrow>
               (case read_text pg the_card of
                  Inl e \<Rightarrow> Inl e
                | Inr txt \<Rightarrow>
                    (case extract_exact_ratio txt expected_total of
                       Some r \<Rightarrow> Inr (CardText, r)
                     | None \<Rightarrow>
                         (case first_descendant_ratio pg expected_total (slash_descendants pg the_card) of
                            Some r \<Rightarrow> Inr (CardDescendant, r)
                          | None \<Rightarrow> Inl TimeoutException)))))"

definition check_site_batteries :: "'a page_scheme \<Rightarrow> string \<Rightarrow> int \<Rightarrow> exn + string" where
  "check_site_batteries pg site_name expected_total =
     map_sum id snd (check_site_batteries_staged pg site_name expected_total)"

subsection \<open>\<open>check_site_batteries\<close> of the 02.09 script (lines 178-263)\<close>

text \<open>\<open>s.lower()\<close> on the code points 0..255.\<close>

definition py_lower_char :: "char \<Rightarrow> char" where
  "py_lower_char c =
     (if (65 \<le> code c \<and> code c \<le> 90) \<or> (192 \<le> code c \<and> code c \<le> 214) \<or>
         (216 \<le> code c \<and> code c \<le> 222)
      then char_of (code c + 32) else c)"

definition py_lower :: "string \<Rightarrow> string" where
  "py_lower s = map py_lower_char s"

text \<open>\<open>sub in s\<close> for strings.\<close>

fun starts_with :: "string \<Rightarrow> string \<Rightarrow> bool" where
  "starts_with s [] = True"
| "starts_with [] (c # cs) = False"
| "starts_with (d # ds) (c # cs) = (d = c \<and> starts_with ds cs)"

fun contains :: "string \<Rightarrow> string \<Rightarrow> bool" where
  "contains [] sub = (sub = [])"
| "contains (c # cs) sub = (starts_with (c # cs) sub \<or> contains cs sub)"

text \<open>\<open>(div.text or "")\<close> and \<open>el.text\<close>.\<close>

definition read_vis_text :: "'a page_scheme \<Rightarrow> elem \<Rightarrow> exn + string" where
  "read_vis_text pg el =
     (if text_stale pg el then Inl StaleElementReferenceException else Inr (vis_text pg el))"

text \<open>
  The loop over all descendants of the card (lines 211-217). It has no \<open>try\<close>: a stale
  element ends the function with its exception.
\<close>

fun first_ratio_stripped :: "'a page_scheme \<Rightarrow> int \<Rightarrow> elem list \<Rightarrow> exn + string option" where
  "first_ratio_stripped pg expected_total [] = Inr None"
| "first_ratio_stripped pg expected_total (el # els) =
     (case read_text pg el of
        Inl e \<Rightarrow> Inl e
      | Inr t \<Rightarrow>
          let val = py_strip t in
          if val = [] then first_ratio_stripped pg expected_total els
          else (case extract_exact_ratio val expected_total of
                  Some r \<Rightarrow> Inr (Some r)
                | None \<Rightarrow> first_ratio_stripped pg expected_total els))"

text \<open>The loop over the candidates of the whole document (lines 221-225).\<close>

fun first_ratio_doc :: "'a page_scheme \<Rightarrow> int \<Rightarrow> elem list \<Rightarrow> exn + string option" where
  "first_ratio_doc pg expected_total [] = Inr None"
| "first_ratio_doc pg expected_total (el # els) =
     (case read_text pg el of
        Inl e \<Rightarrow> Inl e
      | Inr t \<Rightarrow>
          (case extract_exact_ratio (py_strip t) expected_total of
             Some r \<Rightarrow> Inr (Some r)
           | None \<Rightarrow> first_ratio_doc pg expected_total els))"

text \<open>The loop over the descendants in the fallback (lines 252-256), on the unstripped text.\<close>

fun first_ratio_raw :: "'a page_scheme \<Rightarrow> int \<Rightarrow> elem list \<Rightarrow> exn + string option" where
  "first_ratio_raw pg expected_total [] = Inr None"
| "first_ratio_raw pg expected_total (el # els) =
     (case read_text pg el of
        Inl e \<Rightarrow> Inl e
      | Inr v \<Rightarrow>
          (case extract_exact_ratio v expected_total of
             Some r \<Rightarrow> Inr (Some r)
           | None \<Rightarrow> first_ratio_raw pg expected_total els))"

text \<open>
  The fallback of the \<open>except TimeoutException\<close> clause (lines 232-260): every \<open>div\<close>
  whose text contains the site name, whatever the case; any exception inside the body of
  the loop goes on with the next \<open>div\<close>.
\<close>

fun partial_divs :: "'a page_scheme \<Rightarrow> string \<Rightarrow> int \<Rightarrow> elem list \<Rightarrow> string option" where
  "partial_divs pg site_name expected_total [] = None"
| "partial_divs pg site_name expected_total (dv # divs) =
     (case read_vis_text pg dv of
        Inl e \<Rightarrow> partial_divs pg site_name expected_total divs
      | Inr t0 \<Rightarrow>
          if contains (py_lower (py_strip t0)) (py_lower site_name)
          then let parent = (case class_ancestor_or_div pg dv of None \<Rightarrow> dv | Some p \<Rightarrow> p) in
            (case read_text pg parent of
               Inl e \<Rightarrow> partial_divs pg site_name expected_total divs
             | Inr val \<Rightarrow>
                 (case extract_exact_ratio val expected_total of
                    Some r \<Rightarrow> Some r
                  | None \<Rightarrow>
                      (case first_ratio_raw pg expected_total (descendants pg parent) of
                         Inl e \<Rightarrow> partial_divs pg site_name expected_total divs
                       | Inr found \<Rightarrow>
                           (case found of
                              Some r \<Rightarrow> Some r
                            | None \<Rightarrow> partial_divs pg site_name expected_total divs))))
          else partial_divs pg site_name expected_total divs)"

text \<open>The body of the \<open>try\<close> (lines 186-228), each return tagged by its stage.\<close>

definition main_attempt_0209 :: "'a page_scheme \<Rightarrow> string \<Rightarrow> int \<Rightarrow> exn + (stage \<times> string)" where
  "main_attempt_0209 pg site_name expected_total =
     (case find_ci pg (py_lower site_name) of
        None \<Rightarrow> Inl TimeoutException
      | Some site_el \<Rightarrow>
          let parent = (case class_ancestor_or_div pg site_el of None \<Rightarrow> site_el | Some p \<Rightarrow> p) in
          (case read_text pg parent of
             Inl e \<Rightarrow> Inl e
           | Inr txt \<Rightarrow>
               (case extract_exact_ratio txt expected_total of
                  Some r \<Rightarrow> Inr (CardText, r)
                | None \<Rightarrow>
                    (case first_ratio_stripped pg expected_total (descendants pg parent) of
                       Inl e \<Rightarrow> Inl e
                     | Inr found \<Rightarrow>
                         (case found of
                            Some r \<Rightarrow> Inr (CardDescendant, r)
                          | None \<Rightarrow>
                              (case first_ratio_doc pg expected_total (doc_candidates pg expected_total) of
                                 Inl e \<Rightarrow> Inl e
                               | Inr found' \<Rightarrow>
                                   (case found' of
                                      Some r \<Rightarrow> Inr (DocumentScan, r)
                                    | None \<Rightarrow> Inl TimeoutException)))))))"

text \<open>
  The whole function: a TimeoutException of the \<open>try\<close> (from the wait or from line 228)
  runs the fallback and is raised again when the fallback finds nothing; any other
  exception leaves the function.
\<close>

definition check_site_batteries_0209_staged ::
  "'a page_scheme \<Rightarrow> string \<Rightarrow> int \<Rightarrow> exn + (stage \<times> string)" where
  "check_site_batteries_0209_staged pg site_name expected_total =
     (case main_attempt_0209 pg site_name expected_total of
        Inr v \<Rightarrow> Inr v
      | Inl e \<Rightarrow>
          if e = TimeoutException
          then (case partial_divs pg site_name expected_total (all_divs pg) of
                  Some r \<Rightarrow> Inr (PartialDiv, r)
                | None \<Rightarrow> Inl TimeoutException)
          else Inl e)"

definition check_site_batteries_0209 :: "'a page_scheme \<Rightarrow> string \<Rightarrow> int \<Rightarrow> exn + string" where
  "check_site_batteries_0209 pg site_name expected_total =
     map_sum id snd (check_site_batteries_0209_staged pg site_name expected_total)"

subsection \<open>\<open>check_site_batteries\<close> of the legacy script (04.09 file, lines 499-549)\<close>

text \<open>
  \<open>re.search(r'\d+/\d+', value)\<close> and \<open>group(0)\<close>: the match is tried at every
  position from the left; at a position the first \<^verbatim>\<open>\d+\<close> takes all the digits there.
\<close>

fun search_ratio :: "string \<Rightarrow> string option" where
  "search_ratio [] = None"
| "search_ratio (c # cs) =
     (let ds1 = takeWhile is_digit (c # cs); r1 = dropWhile is_digit (c # cs) in
      if ds1 \<noteq> [] \<and> r1 \<noteq> [] \<and> hd r1 = CHR ''/'' \<and> takeWhile is_digit (tl r1) \<noteq> []
      then Some (ds1 @ ''/'' @ takeWhile is_digit (tl r1))
      else search_ratio cs)"

text \<open>\<open>return ratio_match.group(0)\<close>, else \<open>return value\<close>.\<close>

definition ratio_or_value :: "string \<Rightarrow> string" where
  "ratio_or_value v = (case search_ratio v of Some m \<Rightarrow> m | None \<Rightarrow> v)"

text \<open>The fallback loop of lines 529-545; any exception goes on with the next \<open>div\<close>.\<close>

fun legacy_partial :: "'a page_scheme \<Rightarrow> string \<Rightarrow> int \<Rightarrow> elem list \<Rightarrow> string option" where
  "legacy_partial pg site_name expected_total [] = None"
| "legacy_partial pg site_name expected_total (dv # divs) =
     (case read_vis_text pg dv of
        Inl e \<Rightarrow> legacy_partial pg site_name expected_total divs
      | Inr t0 \<Rightarrow>
          if contains (py_lower (py_strip t0)) (py_lower site_name)
          then (case class_ancestor pg dv of
                  None \<Rightarrow> legacy_partial pg site_name expected_total divs
                | Some parent \<Rightarrow>
                    (case total_descendants pg parent expected_total of
                       [] \<Rightarrow> legacy_partial pg site_name expected_total divs
                     | b # bs \<Rightarrow>
                         (case read_vis_text pg b of
                            Inl e \<Rightarrow> legacy_partial pg site_name expected_total divs
                          | Inr t \<Rightarrow> Some (ratio_or_value (py_strip t)))))
          else legacy_partial pg site_name expected_total divs)"

definition check_site_batteries_legacy :: "'a page_scheme \<Rightarrow> string \<Rightarrow> int \<Rightarrow> exn + string" where
  "check_site_batteries_legacy pg site_name expected_total =
     (case (case find_div_contains pg site_name of
              None \<Rightarrow> Inl TimeoutException
            | Some site_box \<Rightarrow>
                (case find_total_text pg expected_total of
                   None \<Rightarrow> Inl TimeoutException
                 | Some batteries \<Rightarrow>
                     (case read_vis_text pg batteries of
                        Inl e \<Rightarrow> Inl e
                      | Inr t \<Rightarrow> Inr (ratio_or_value (py_strip t))))) of
        Inr v \<Rightarrow> Inr v
      | Inl e \<Rightarrow>
          if e = TimeoutException
          then (case legacy_partial pg site_name expected_total (all_divs pg) of
                  Some r \<Rightarrow> Inr r
                | None \<Rightarrow> Inl TimeoutException)
          else Inl e)"

subsection \<open>\<open>get_nm_for_site\<close> of the single-pass script (lines 86-150)\<close>

text \<open>\<open>parse_ratio\<close>: the first match of the pattern, as a pair of integers.\<close>

definition parse_ratio :: "string \<Rightarrow> (int \<times> int) option" where
  "parse_ratio s =
     (case findall s of
        [] \<Rightarrow> None
      | g # gs \<Rightarrow> Some (int_of_digits (fst g), int_of_digits (snd g)))"

text \<open>\<open>" ".join(t.split())\<close>: the words of the text, one space between them.\<close>

fun split_ws :: "string \<Rightarrow> string list" where
  "split_ws [] = []"
| "split_ws (c # cs) =
     (if is_space c then split_ws cs
      else (case cs of
              [] \<Rightarrow> [[c]]
            | d # ds \<Rightarrow>
                if is_space d then [c] # split_ws cs
                else (case split_ws cs of [] \<Rightarrow> [[c]] | w # ws \<Rightarrow> (c # w) # ws)))"

fun join_space :: "string list \<Rightarrow> string" where
  "join_space [] = []"
| "join_space [w] = w"
| "join_space (w # v # ws) = w @ '' '' @ join_space (v # ws)"

text \<open>
  A candidate is the tuple \<open>(score, txt, val)\<close> with \<open>score = (flag, len(txt))\<close>;
  \<open>items.sort()\<close> orders the tuples lexicographically, strings by code point.
\<close>

type_synonym cand = "(nat \<times> nat) \<times> string \<times> (int \<times> int)"

fun str_less :: "string \<Rightarrow> string \<Rightarrow> bool" where
  "str_less [] [] = False"
| "str_less [] (d # ds) = True"
| "str_less (c # cs) [] = False"
| "str_less (c # cs) (d # ds) = (code c < code d \<or> (c = d \<and> str_less cs ds))"

definition cand_less :: "cand \<Rightarrow> cand \<Rightarrow> bool" where
  "cand_less a b =
     (let f1 = fst (fst a); l1 = snd (fst a); t1 = fst (snd a); n1 = fst (snd (snd a)); m1 = snd (snd (snd a));
          f2 = fst (fst b); l2 = snd (fst b); t2 = fst (snd b); n2 = fst (snd (snd b)); m2 = snd (snd (snd b))
      in f1 < f2 \<or> (f1 = f2 \<and> (l1 < l2 \<or> (l1 = l2 \<and> (str_less t1 t2 \<or> (t1 = t2 \<and>
           (n1 < n2 \<or> (n1 = n2 \<and> m1 < m2))))))))"

fun insert_cand :: "cand \<Rightarrow> cand list \<Rightarrow> cand list" where
  "insert_cand x [] = [x]"
| "insert_cand x (y # ys) = (if cand_less y x then y # insert_cand x ys else x # y # ys)"

definition sort_cands :: "cand list \<Rightarrow> cand list" where
  "sort_cands xs = foldr insert_cand xs []"

text \<open>The loop of \<open>candidates()\<close> (lines 121-130); a stale element is skipped.\<close>

fun collect_cands :: "'a page_scheme \<Rightarrow> int \<Rightarrow> elem list \<Rightarrow> cand list" where
  "collect_cands pg expected_total [] = []"
| "collect_cands pg expected_total (el # els) =
     (case read_vis_text pg el of
        Inl e \<Rightarrow> collect_cands pg expected_total els
      | Inr t \<Rightarrow>
          let txt = join_space (split_ws t) in
          (case parse_ratio txt of
             None \<Rightarrow> collect_cands pg expected_total els
           | Some val \<Rightarrow>
               ((if contains txt (CHR ''/'' # str_int expected_total) then 0 else 1, length txt), txt, val)
                 # collect_cands pg expected_total els))"

definition candidates :: "'a page_scheme \<Rightarrow> int \<Rightarrow> elem \<Rightarrow> cand list" where
  "candidates pg expected_total the_card =
     sort_cands (collect_cands pg expected_total (slash_descendants pg the_card))"

text \<open>
  The settle loop (lines 134-144), for the number of times that the test
  \<open>time.time() < end\<close> holds within the window of two seconds.
\<close>

fun settle :: "'a page_scheme \<Rightarrow> int \<Rightarrow> elem \<Rightarrow> nat \<Rightarrow> cand option \<Rightarrow> cand option" where
  "settle pg expected_total the_card 0 best = best"
| "settle pg expected_total the_card (Suc k) best =
     (case candidates pg expected_total the_card of
        [] \<Rightarrow> settle pg expected_total the_card k best
      | c # cs \<Rightarrow>
          if snd (snd (snd c)) = expected_total \<or> fst (snd (snd c)) \<noteq> 0 then Some c
          else settle pg expected_total the_card k (Some c))"

text \<open>The function returns \<open>(n, m, txt)\<close>.\<close>

definition get_nm_for_site ::
  "'a page_scheme \<Rightarrow> string \<Rightarrow> int \<Rightarrow> nat \<Rightarrow> exn + (int \<times> int \<times> string)" where
  "get_nm_for_site pg site_label expected_total polls =
     (case find_exact pg site_label of
        None \<Rightarrow> Inl TimeoutException
      | Some title \<Rightarrow>
          (case locate_card pg 8 title of
             Inl e \<Rightarrow> Inl e
           | Inr the_card \<Rightarrow>
               (case settle pg expected_total the_card polls None of
                  None \<Rightarrow> Inl TimeoutException
                | Some best \<Rightarrow> Inr (fst (snd (snd best)), snd (snd (snd best)), fst (snd best)))))"

subsection \<open>\<open>check_all_sites_once\<close> of the popup script (lines 206-237)\<close>

record site_spec =
  label :: string
  expected_total :: int

datatype status = Success | Error

text \<open>The dictionary appended to \<open>results\<close>; a field that holds Python's None is None.\<close>

record result =
  site :: string
  ratio :: "string option"
  status :: status
  error :: "exn option"
  current :: "int option"
  total :: "int option"
  all_connected :: "bool option"

definition error_result :: "string \<Rightarrow> exn \<Rightarrow> result" where
  "error_result l e =
     \<lparr>site = l, ratio = None, status = Error, error = Some e,
      current = None, total = None, all_connected = None\<rparr>"

text \<open>
  \<open>n, m = map(int, ratio.split("/"))\<close>: a ValueError unless there are exactly two pieces
  and both are integers.
\<close>

definition parse_nm :: "string \<Rightarrow> exn + (int \<times> int)" where
  "parse_nm r =
     (case split_on CHR ''/'' r of
        [a, b] \<Rightarrow>
          (case py_int a of
             Inl e \<Rightarrow> Inl e
           | Inr n \<Rightarrow> (case py_int b of Inl e \<Rightarrow> Inl e | Inr m \<Rightarrow> Inr (n, m)))
      | _ \<Rightarrow> Inl ValueError)"

text \<open>The body of the loop: the \<open>try\<close> with its \<open>except Exception\<close>.\<close>

definition check_one :: "'a page_scheme \<Rightarrow> site_spec \<Rightarrow> result" where
  "check_one pg s =
     (case check_site_batteries pg (label s) (expected_total s) of
        Inl e \<Rightarrow> error_result (label s) e
      | Inr r \<Rightarrow>
          (case parse_nm r of
             Inl e \<Rightarrow> error_result (label s) e
           | Inr (n, m) \<Rightarrow>
               \<lparr>site = label s, ratio = Some r, status = Success, error = None,
                current = Some n, total = Some m, all_connected = Some (n = m)\<rparr>))"

fun check_all_sites_once :: "'a page_scheme \<Rightarrow> site_spec list \<Rightarrow> result list" where
  "check_all_sites_once pg [] = []"
| "check_all_sites_once pg (s # ss) = check_one pg s # check_all_sites_once pg ss"

subsection \<open>\<open>popup_disconnected\<close> (lines 255-293)\<close>

text \<open>
  The line of one listed site:
  \<^verbatim>\<open>f"{r['site']}: {r['current']}/{r['total']} (disconnected: {disc})"\<close> with
  \<open>disc = r["total"] - r["current"]\<close>.
\<close>

definition alert_line :: "string \<Rightarrow> int \<Rightarrow> int \<Rightarrow> string" where
  "alert_line l cur tot =
     l @ '': '' @ str_int cur @ ''/'' @ str_int tot @ '' (disconnected: '' @ str_int (tot - cur) @ '')''"

text \<open>
  The loop that collects the lines; the subtraction of a None would be a TypeError.
\<close>

fun popup_lines :: "result list \<Rightarrow> exn + string list" where
  "popup_lines [] = Inr []"
| "popup_lines (r # rs) =
     (if status r = Success \<and> all_connected r = Some False
      then (case (total r, current r) of
              (Some t, Some c) \<Rightarrow>
                (case popup_lines rs of Inl e \<Rightarrow> Inl e | Inr ls \<Rightarrow> Inr (alert_line (site r) c t # ls))
            | _ \<Rightarrow> Inl TypeError)
      else popup_lines rs)"

text \<open>
  What the function emits and returns. \<open>box_works\<close> says whether the call of
  \<open>MessageBoxW\<close> succeeds; when it does not, the message is printed behind \<open>[POPUP]\<close> and
  the function returns False. The beep has no effect on the result.
\<close>

datatype alert = NoAlert | PopupShown string | Printed string

definition popup_disconnected :: "result list \<Rightarrow> bool \<Rightarrow> exn + (alert \<times> bool)" where
  "popup_disconnected results box_works =
     (case popup_lines results of
        Inl e \<Rightarrow> Inl e
      | Inr ls \<Rightarrow>
          if ls = [] then Inr (NoAlert, False)
          else let msg = join_lines ls in
            if box_works then Inr (PopupShown msg, True)
            else Inr (Printed (''[POPUP]'' @ [CHR 0x0A] @ msg), False))"

subsection \<open>The monitoring loop of the popup script (lines 303-356)\<close>

text \<open>\<open>int(x)\<close> on a float: truncation towards zero.\<close>

definition py_trunc :: "rat \<Rightarrow> int" where
  "py_trunc x = (if x < 0 then \<lceil>x\<rceil> else \<lfloor>x\<rfloor>)"

text \<open>\<open>wait_sec = max(0, interval - int(elapsed))\<close>.\<close>

definition wait_sec :: "int \<Rightarrow> rat \<Rightarrow> int" where
  "wait_sec interval elapsed = max 0 (interval - py_trunc elapsed)"

text \<open>
  Time is a rational number of seconds. \<open>stop t\<close> says whether the STOP file exists at
  time \<open>t\<close>, which is what \<open>should_stop()\<close> returns when called at \<open>t\<close>; the check itself
  takes no time, and \<open>time.sleep(1)\<close> takes exactly one second. \<open>sleep_with_stop stop n t\<close>
  runs the loop \<open>for _ in range(n)\<close> from time \<open>t\<close> and returns the time at which it ends.
\<close>

fun sleep_with_stop :: "(rat \<Rightarrow> bool) \<Rightarrow> nat \<Rightarrow> rat \<Rightarrow> rat" where
  "sleep_with_stop stop 0 t = t"
| "sleep_with_stop stop (Suc k) t = (if stop t then t else sleep_with_stop stop k (t + 1))"

text \<open>
  The environment of the loop: the interval of the configuration, the STOP file over time,
  and for the cycle number \<open>i\<close> the seconds that \<open>setup_driver\<close> takes before
  \<open>cycle_start\<close> and the seconds from \<open>cycle_start\<close> to the reading of \<open>elapsed\<close>
  (login, checks, summary, popup and \<open>driver.quit()\<close>). A cycle that raises is logged by
  the \<open>except\<close> clause and takes its time like any other.
\<close>

record env =
  interval_sec :: int
  stop_file :: "rat \<Rightarrow> bool"
  setup_time :: "nat \<Rightarrow> rat"
  cycle_time :: "nat \<Rightarrow> rat"

text \<open>
  \<open>while True\<close> of \<open>main_continuous\<close>, from cycle \<open>i\<close> at time \<open>t\<close>. The loop may run for
  ever, which is the value None; \<open>Some (n, t')\<close> is the exit by \<open>break\<close> at time \<open>t'\<close> after
  \<open>n\<close> cycles in all.
\<close>

partial_function (option) main_continuous :: "env \<Rightarrow> nat \<Rightarrow> rat \<Rightarrow> (nat \<times> rat) option" where
  "main_continuous ev i t =
     (if stop_file ev t then Some (i, t)
      else let elapsed = cycle_time ev i;
               t1 = t + setup_time ev i + elapsed;
               t2 = sleep_with_stop (stop_file ev) (nat (wait_sec (interval_sec ev) elapsed)) t1
           in if stop_file ev t2 then Some (Suc i, t2) else main_continuous ev (Suc i) t2)"

text \<open>
  \<open>main_continuous\<close> of the 02.09 script (lines 406-418) waits with
  \<open>time.sleep(interval)\<close>, whatever the cycle took; a negative argument is a ValueError.
\<close>

definition cycle_wait_0209 :: "int \<Rightarrow> rat \<Rightarrow> exn + int" where
  "cycle_wait_0209 interval elapsed = (if interval < 0 then Inl ValueError else Inr interval)"

subsection \<open>\<open>check_all_sites_once\<close> of the 02.09 and legacy scripts (lines 267-322, 552-609)\<close>

text \<open>
  The body of the loop, for the outcome \<open>c\<close> of the call of \<open>check_site_batteries\<close>: a
  ratio without a slash is a success without numbers.
\<close>

definition check_one_plain :: "site_spec \<Rightarrow> exn + string \<Rightarrow> result" where
  "check_one_plain s c =
     (case c of
        Inl e \<Rightarrow> error_result (label s) e
      | Inr r \<Rightarrow>
          if CHR ''/'' \<in> set r
          then (case parse_nm r of
                  Inl e \<Rightarrow> error_result (label s) e
                | Inr (n, m) \<Rightarrow>
                    \<lparr>site = label s, ratio = Some r, status = Success, error = None,
                     current = Some n, total = Some m, all_connected = Some (n = m)\<rparr>)
          else \<lparr>site = label s, ratio = Some r, status = Success, error = None,
                current = None, total = None, all_connected = None\<rparr>)"

fun check_all_sites_once_0209 :: "'a page_scheme \<Rightarrow> site_spec list \<Rightarrow> result list" where
  "check_all_sites_once_0209 pg [] = []"
| "check_all_sites_once_0209 pg (s # ss) =
     check_one_plain s (check_site_batteries_0209 pg (label s) (expected_total s))
       # check_all_sites_once_0209 pg ss"

fun check_all_sites_once_legacy :: "'a page_scheme \<Rightarrow> site_spec list \<Rightarrow> result list" where
  "check_all_sites_once_legacy pg [] = []"
| "check_all_sites_once_legacy pg (s # ss) =
     check_one_plain s (check_site_batteries_legacy pg (label s) (expected_total s))
       # check_all_sites_once_legacy pg ss"

subsection \<open>The outcome of a result\<close>

text \<open>
  The view of a result dictionary as the outcome of the specification: \<open>Some (n, m)\<close> for
  a success that carries the ratio \<open>n/m\<close>, None otherwise. \<open>disconnected_site\<close> gives
  the site, the numerator and the denominator of a result whose outcome is a ratio with
  \<open>n \<noteq> m\<close>.
\<close>

definition outcome :: "result \<Rightarrow> (int \<times> int) option" where
  "outcome r =
     (case status r of
        Error \<Rightarrow> None
      | Success \<Rightarrow>
          (case current r of
             None \<Rightarrow> None
           | Some n \<Rightarrow> (case total r of None \<Rightarrow> None | Some m \<Rightarrow> Some (n, m))))"

definition disconnected_site :: "result \<Rightarrow> (string \<times> int \<times> int) option" where
  "disconnected_site r =
     (case outcome r of
        None \<Rightarrow> None
      | Some (n, m) \<Rightarrow> if n \<noteq> m then Some (site r, n, m) else None)"

text \<open>
  A string is an exact ratio for the expected total \<open>e\<close> when it is the rendering of
  \<open>n/e\<close> for some non-negative \<open>n\<close>.
\<close>

definition exact_ratio :: "int \<Rightarrow> string \<Rightarrow> bool" where
  "exact_ratio e r \<longleftrightarrow> (\<exists>n. 0 \<le> n \<and> 0 \<le> e \<and> r = fmt_ratio n e)"


subsection \<open>Pairs of a text\<close>

text \<open>
  A delimited pair of a text \<open>pre @ a @ ws1 @ ''/'' @ ws2 @ b @ post\<close>: \<open>a\<close> and \<open>b\<close> are
  non-empty runs of digits, \<open>ws1\<close> and \<open>ws2\<close> runs of whitespace, no word character stands
  before \<open>a\<close> and none behind \<open>b\<close>. This is an occurrence of the pattern
  \<^verbatim>\<open>\b(\d+)\s*/\s*(\d+)\b\<close> in the text, stated without the scanner.
\<close>

definition delimited_pair :: "string \<Rightarrow> string \<Rightarrow> string \<Rightarrow> string \<Rightarrow> string \<Rightarrow> string \<Rightarrow> bool" where
  "delimited_pair pre a ws1 ws2 b post \<longleftrightarrow>
     a \<noteq> [] \<and> b \<noteq> [] \<and> list_all is_digit a \<and> list_all is_digit b \<and>
     list_all is_space ws1 \<and> list_all is_space ws2 \<and>
     (pre = [] \<or> \<not> is_word (last pre)) \<and> (post = [] \<or> \<not> is_word (hd post))"


text \<open>
  The pairs of a text in the words of the specification, "all substrings matching the
  pattern integer, optional whitespace, '/', optional whitespace, integer": every
  contiguous substring of the text that is, as a whole, digits, whitespace, a slash,
  whitespace, digits.
\<close>

fun tails :: "'a list \<Rightarrow> 'a list list" where
  "tails [] = [[]]"
| "tails (x # xs) = (x # xs) # tails xs"

fun inits :: "'a list \<Rightarrow> 'a list list" where
  "inits [] = [[]]"
| "inits (x # xs) = [] # map ((#) x) (inits xs)"

definition substrings :: "string \<Rightarrow> string list" where
  "substrings s = concat (map inits (tails s))"

definition whole_match :: "string \<Rightarrow> (int \<times> int) option" where
  "whole_match s =
     (let a = takeWhile is_digit s; r1 = dropWhile is_space (dropWhile is_digit s) in
      if a \<noteq> [] \<and> r1 \<noteq> [] \<and> hd r1 = CHR ''/''
      then let r2 = dropWhile is_space (tl r1); b = takeWhile is_digit r2 in
        if b \<noteq> [] \<and> dropWhile is_digit r2 = []
        then Some (int_of_digits a, int_of_digits b) else None
      else None)"

definition spec_substring_pairs :: "string \<Rightarrow> (int \<times> int) list" where
  "spec_substring_pairs text = List.map_filter whole_match (substrings text)"


subsection \<open>A concrete page\<close>

text \<open>
  A dashboard with three cards. The title of Warburg3 (element 1) sits in a small wrapper
  (11) inside its card (12), whose text holds a garbled \<open>99/66\<close>. The title of Alpha (2)
  sits directly in its card (21). The card of Gamma (31) shows no ratio in its own text;
  of its two slash-containing descendants the first (32) is stale and the second (33)
  reads \<open>12/12\<close>. The cards hang under the body (90) and the root (91). No element is
  titled Beta. The card of Alpha has a second child (22) whose own text is \<open>65/667\<close>,
  the first element of the document whose text contains \<open>/66\<close>. Delta occurs twice:
  first as an entry (4) of a menu (41) that shows no ratio, then as the title (5) of its
  card (51), which reads \<open>40/66\<close>.
\<close>

definition demo_page :: page where
  "demo_page =
     \<lparr>find_exact = (\<lambda>l. if l = ''Warburg3'' then Some 1 else if l = ''Alpha'' then Some 2
                         else if l = ''Gamma'' then Some 3 else if l = ''Delta'' then Some 4 else None),
      parent_of = (\<lambda>e. if e = 1 then Some 11 else if e = 11 then Some 12
                        else if e = 2 then Some 21 else if e = 3 then Some 31
                        else if e = 4 then Some 41 else if e = 5 then Some 51
                        else if e = 12 \<or> e = 21 \<or> e = 31 \<or> e = 41 \<or> e = 51 then Some 90
                        else if e = 90 then Some 91 else None),
      rect_of = (\<lambda>e. if e = 11 then Some (200, 24)
                      else if e = 12 \<or> e = 21 \<or> e = 31 \<or> e = 41 \<or> e = 51 then Some (300, 180)
                      else if e = 90 \<or> e = 91 then Some (1440, 900) else None),
      text_stale = (\<lambda>e. e = 32),
      inner_text = (\<lambda>e. if e = 12 then Some ''Warburg3 99/66''
                         else if e = 21 then Some ''Alpha 65/66 connected''
                         else if e = 31 then Some ''Gamma''
                         else if e = 33 then Some '' 12/12 ''
                         else if e = 41 then Some ''Delta offline''
                         else if e = 51 then Some ''Delta 40/66'' else None),
      vis_text = (\<lambda>e. if e = 1 then ''Warburg3'' else if e = 2 then ''Alpha''
                       else if e = 3 then ''Gamma'' else if e = 4 \<or> e = 5 then ''Delta''
                       else if e = 22 then ''65/667''
                       else if e = 33 then ''12/12'' else []),
      slash_descendants = (\<lambda>e. if e = 31 then [32, 33] else if e = 21 then [22] else []),
      find_ci = (\<lambda>l. if l = ''warburg3'' then Some 1 else if l = ''alpha'' then Some 2
                       else if l = ''gamma'' then Some 3 else if l = ''delta'' then Some 4 else None),
      class_ancestor_or_div = (\<lambda>e. if e = 1 then Some 11 else if e = 2 then Some 21
                                    else if e = 3 then Some 31 else if e = 4 then Some 41
                                    else if e = 5 then Some 51 else None),
      descendants = (\<lambda>e. if e = 11 then [1] else if e = 21 then [2, 22]
                          else if e = 31 then [3, 32, 33] else if e = 41 then [4]
                          else if e = 51 then [5] else []),
      doc_candidates = (\<lambda>n. if n = 66 then [12, 21, 22] else if n = 12 then [31, 33] else []),
      all_divs = [1, 2, 3, 4, 5],
      find_div_contains = (\<lambda>l. if l = ''Warburg3'' then Some 1 else if l = ''Alpha'' then Some 2
                                 else if l = ''Gamma'' then Some 3 else None),
      find_total_text = (\<lambda>n. if n = 66 then Some 22 else if n = 12 then Some 33 else None),
      class_ancestor = (\<lambda>e. if e = 1 then Some 12 else if e = 2 then Some 21
                             else if e = 3 then Some 31 else None),
      total_descendants = (\<lambda>e n. if e = 21 \<and> n = 66 then [22]
                                  else if e = 31 \<and> n = 12 then [33] else [])\<rparr>"

definition demo_sites :: "site_spec list" where
  "demo_sites =
     [\<lparr>label = ''Warburg3'', expected_total = 66\<rparr>,
      \<lparr>label = ''Alpha'', expected_total = 66\<rparr>,
      \<lparr>label = ''Beta'', expected_total = 40\<rparr>,
      \<lparr>label = ''Gamma'', expected_total = 12\<rparr>]"

text \<open>
  Two short documents with a single title (1) in the body (2) under the root (3). In the
  first neither the body nor the root is higher than 140; in the second only the root is.
\<close>

definition short_page :: page where
  "short_page =
     demo_page
       \<lparr>find_exact := (\<lambda>l. if l = ''Solo'' then Some 1 else None),
        parent_of := (\<lambda>e. if e = 1 then Some 2 else if e = 2 then Some 3 else None),
        rect_of := (\<lambda>e. if e = 2 then Some (1424, 84) else if e = 3 then Some (1440, 100) else None)\<rparr>"

definition root_page :: page where
  "root_page =
     short_page
       \<lparr>rect_of := (\<lambda>e. if e = 2 then Some (1424, 130) else if e = 3 then Some (1440, 146) else None)\<rparr>"

text \<open>
  An environment of the monitoring loop: interval 10 seconds, every cycle takes 3 seconds
  after a second of driver setup, and the STOP file appears at time 13/2.
\<close>

definition demo_env :: env where
  "demo_env =
     \<lparr>interval_sec = 10, stop_file = (\<lambda>u. 13 / 2 \<le> u),
      setup_time = (\<lambda>i. 1), cycle_time = (\<lambda>i. 3)\<rparr>"

section \<open>Properties\<close>

subsection \<open>Selection among the exact-denominator pairs\<close>

lemma max_by_fst_mem: "max_by_fst b ps \<in> set (b # ps)"
  by (induction ps arbitrary: b) auto

lemma max_by_fst_mono: "fst b \<le> fst (max_by_fst b ps)"
proof (induction ps arbitrary: b)
  case Nil show ?case by simp
next
  case (Cons p ps)
  have "fst b \<le> fst (if fst b < fst p then p else b)" by simp
  also have "\<dots> \<le> fst (max_by_fst (if fst b < fst p then p else b) ps)" by (rule Cons.IH)
  finally show ?case by simp
qed

lemma max_by_fst_ge: "p \<in> set ps \<Longrightarrow> fst p \<le> fst (max_by_fst b ps)"
proof (induction ps arbitrary: b)
  case Nil then show ?case by simp
next
  case (Cons q ps)
  show ?case
  proof (cases "p = q")
    case True
    have "fst q \<le> fst (if fst b < fst q then q else b)" by simp
    also have "\<dots> \<le> fst (max_by_fst (if fst b < fst q then q else b) ps)" by (rule max_by_fst_mono)
    finally show ?thesis using True by simp
  next
    case False
    with Cons.prems have "p \<in> set ps" by simp
    then show ?thesis using Cons.IH by simp
  qed
qed

lemma max_by_fst_Max:
  assumes "xs \<noteq> []"
  shows "fst (max_by_fst (hd xs) (tl xs)) = Max (fst ` set xs)"
proof -
  from assms obtain b ps where xs: "xs = b # ps" by (cases xs) auto
  have "Max (fst ` set xs) = fst (max_by_fst b ps)"
  proof (rule Max_eqI)
    show "finite (fst ` set xs)" by simp
    show "fst (max_by_fst b ps) \<in> fst ` set xs"
      using max_by_fst_mem [of b ps] xs by (metis imageI)
    fix y assume "y \<in> fst ` set xs"
    then obtain p where p: "p \<in> set (b # ps)" "y = fst p" unfolding xs by blast
    then show "y \<le> fst (max_by_fst b ps)"
      using max_by_fst_mono [of b ps] max_by_fst_ge [of p ps b] by auto
  qed
  then show ?thesis using xs by simp
qed

lemma ratio_pairs_Nil: "ratio_pairs [] = []"
  by (simp add: ratio_pairs_def findall_def)

lemma chosen_value:
  assumes ne: "xs \<noteq> []" and den: "\<forall>p \<in> set xs. snd p = e"
  shows "max_by_fst (hd xs) (tl xs) = (Max (fst ` set xs), e)"
proof -
  have "max_by_fst (hd xs) (tl xs) \<in> set xs"
    using max_by_fst_mem [of "hd xs" "tl xs"] ne by simp
  then have "snd (max_by_fst (hd xs) (tl xs)) = e" using den by blast
  then show ?thesis using max_by_fst_Max [OF ne] by (metis prod.collapse)
qed

lemma extract_exact_ratio_eq:
  "extract_exact_ratio text e =
     (let exact = {n. (n, e) \<in> set (ratio_pairs text)};
          sane = {n. (n, e) \<in> set (ratio_pairs text) \<and> n \<le> e}
      in if exact = {} then None
         else Some (fmt_ratio (if sane = {} then Max exact else Max sane) e))"
proof (cases "text = []")
  case True
  then show ?thesis by (simp add: extract_exact_ratio_def ratio_pairs_Nil)
next
  case False
  define ex where "ex = filter (\<lambda>(n, d). d = e) (ratio_pairs text)"
  define sn where "sn = filter (\<lambda>p. fst p \<le> e) ex"
  have set_ex: "fst ` set ex = {n. (n, e) \<in> set (ratio_pairs text)}"
    by (force simp: ex_def)
  have set_sn: "fst ` set sn = {n. (n, e) \<in> set (ratio_pairs text) \<and> n \<le> e}"
    by (force simp: sn_def ex_def)
  have den_ex: "\<forall>p \<in> set ex. snd p = e" by (auto simp: ex_def)
  have den_sn: "\<forall>p \<in> set sn. snd p = e" by (auto simp: sn_def ex_def)
  have ex_empty: "ex = [] \<longleftrightarrow> {n. (n, e) \<in> set (ratio_pairs text)} = {}"
    using set_ex by (metis image_is_empty set_empty)
  have sn_empty: "sn = [] \<longleftrightarrow> {n. (n, e) \<in> set (ratio_pairs text) \<and> n \<le> e} = {}"
    using set_sn by (metis image_is_empty set_empty)
  show ?thesis
  proof (cases "ex = []")
    case True
    then show ?thesis using False ex_empty
      by (simp add: extract_exact_ratio_def ex_def [symmetric])
  next
    case exne: False
    show ?thesis
    proof (cases "sn = []")
      case True
      have "max_by_fst (hd ex) (tl ex) = (Max (fst ` set ex), e)"
        by (rule chosen_value [OF exne den_ex])
      then show ?thesis using False exne True ex_empty sn_empty set_ex
        by (simp add: extract_exact_ratio_def ex_def [symmetric] sn_def [symmetric] Let_def)
    next
      case snne: False
      have "max_by_fst (hd sn) (tl sn) = (Max (fst ` set sn), e)"
        by (rule chosen_value [OF snne den_sn])
      moreover have "{n. (n, e) \<in> set (ratio_pairs text) \<and> n \<le> e} \<noteq> {}"
        using snne sn_empty by simp
      moreover have "{n. (n, e) \<in> set (ratio_pairs text)} \<noteq> {}"
        using exne ex_empty by simp
      ultimately show ?thesis using False exne snne set_sn
        by (simp add: extract_exact_ratio_def ex_def [symmetric] sn_def [symmetric] Let_def del: Collect_empty_eq)
    qed
  qed
qed

subsection \<open>Rendering a ratio and reading it back\<close>

lemma code_digit_char: "k < 10 \<Longrightarrow> code (digit_char k) = 48 + k"
  by (simp add: code_def digit_char_def)

lemma is_digit_digit_char: "k < 10 \<Longrightarrow> is_digit (digit_char k)"
  by (simp add: is_digit_def code_digit_char)

lemma digit_val_digit_char: "k < 10 \<Longrightarrow> digit_val (digit_char k) = int k"
  by (simp add: digit_val_def code_digit_char)

lemma str_nat_digits: "\<forall>c \<in> set (str_nat n). is_digit c"
proof (induction n rule: str_nat.induct)
  case (1 n)
  show ?case
  proof (cases "n < 10")
    case True
    then show ?thesis by (subst str_nat.simps) (simp add: is_digit_digit_char)
  next
    case False
    then show ?thesis using 1 by (subst str_nat.simps) (simp add: is_digit_digit_char)
  qed
qed

lemma str_nat_nonempty: "str_nat n \<noteq> []"
  by (subst str_nat.simps) simp

lemma int_of_digits_snoc: "int_of_digits (ds @ [c]) = 10 * int_of_digits ds + digit_val c"
  by (simp add: int_of_digits_def)

lemma int_of_digits_str_nat: "int_of_digits (str_nat n) = int n"
proof (induction n rule: str_nat.induct)
  case (1 n)
  show ?case
  proof (cases "n < 10")
    case True
    then show ?thesis
      by (subst str_nat.simps) (simp add: int_of_digits_def digit_val_digit_char)
  next
    case False
    then have "int_of_digits (str_nat (n div 10)) = int (n div 10)" using 1 by simp
    then have "int_of_digits (str_nat n) = 10 * int (n div 10) + int (n mod 10)"
      using False by (subst str_nat.simps) (simp add: int_of_digits_snoc digit_val_digit_char)
    then show ?thesis by (simp add: zdiv_int zmod_int)
  qed
qed

lemma digit_not_special:
  assumes "is_digit c"
  shows "\<not> is_space c" "c \<noteq> CHR ''/''" "c \<noteq> CHR ''-''" "c \<noteq> CHR ''+''" "c \<noteq> CHR ''_''" "is_word c"
    "\<not> is_int_space c"
  using assms by (auto simp: is_digit_def is_space_def is_word_def is_int_space_def code_def)

lemma digits_ok_all_digits: "ds \<noteq> [] \<Longrightarrow> \<forall>c \<in> set ds. is_digit c \<Longrightarrow> digits_ok ds"
proof (induction ds rule: digits_ok.induct)
  case 1 then show ?case by simp
next
  case (2 c) then show ?case by simp
next
  case (3 c d cs)
  then show ?case by (auto simp: digit_not_special)
qed

lemma int_strip_digits:
  assumes "\<forall>c \<in> set ds. is_digit c"
  shows "int_strip ds = ds"
proof (cases ds rule: rev_cases)
  case Nil then show ?thesis by (simp add: int_strip_def)
next
  case (snoc xs x)
  have a: "dropWhile is_int_space ds = ds"
    using assms by (cases ds) (auto simp: digit_not_special)
  have "dropWhile is_int_space (rev ds) = rev ds"
    using assms snoc by (simp add: digit_not_special)
  then show ?thesis by (simp add: int_strip_def a)
qed

lemma py_int_digits:
  assumes ne: "ds \<noteq> []" and dg: "\<forall>c \<in> set ds. is_digit c"
  shows "py_int ds = Inr (int_of_digits ds)"
proof -
  have hd: "is_digit (hd ds)" using ne dg by (cases ds) auto
  have f: "filter is_digit ds = ds" using dg by (simp add: filter_id_conv)
  show ?thesis
    using ne hd digit_not_special [OF hd]
    by (simp add: py_int_def int_strip_digits [OF dg] Let_def digits_ok_all_digits [OF ne dg] f)
qed

lemma py_int_str_nat: "py_int (str_nat n) = Inr (int n)"
  by (simp add: py_int_digits str_nat_nonempty str_nat_digits int_of_digits_str_nat)

lemma split_on_no_sep: "sep \<notin> set s \<Longrightarrow> split_on sep s = [s]"
  by (induction s) auto

lemma split_on_one_sep:
  "sep \<notin> set a \<Longrightarrow> sep \<notin> set b \<Longrightarrow> split_on sep (a @ sep # b) = [a, b]"
  by (induction a) (auto simp: split_on_no_sep)

lemma str_nat_no_slash: "CHR ''/'' \<notin> set (str_nat n)"
  using str_nat_digits [of n] digit_not_special(2) by blast

lemma parse_nm_fmt_ratio:
  assumes "0 \<le> n" "0 \<le> m"
  shows "parse_nm (fmt_ratio n m) = Inr (n, m)"
proof -
  have "fmt_ratio n m = str_nat (nat n) @ CHR ''/'' # str_nat (nat m)"
    using assms by (simp add: fmt_ratio_def str_int_def)
  then have "split_on CHR ''/'' (fmt_ratio n m) = [str_nat (nat n), str_nat (nat m)]"
    by (simp add: split_on_one_sep str_nat_no_slash)
  then show ?thesis using assms by (simp add: parse_nm_def py_int_str_nat)
qed

subsection \<open>The groups of a match are digits\<close>

lemma match_at_groups:
  assumes "match_at p s = Some ((a, b), rest)"
  shows "a \<noteq> [] \<and> b \<noteq> [] \<and> (\<forall>c \<in> set a. is_digit c) \<and> (\<forall>c \<in> set b. is_digit c)"
proof -
  from assms obtain r4 where "a = takeWhile is_digit s" "b = takeWhile is_digit r4" "a \<noteq> []" "b \<noteq> []"
    by (auto simp: match_at_def Let_def split: if_splits list.splits)
  then show ?thesis by (auto dest: set_takeWhileD)
qed

lemma scan_groups:
  "(a, b) \<in> set (scan p s) \<Longrightarrow>
     a \<noteq> [] \<and> b \<noteq> [] \<and> (\<forall>c \<in> set a. is_digit c) \<and> (\<forall>c \<in> set b. is_digit c)"
proof (induction p s rule: scan.induct)
  case (1 p)
  then show ?case by simp
next
  case (2 p c cs)
  show ?case
  proof (cases "match_at p (c # cs)")
    case None
    with 2 show ?thesis by simp
  next
    case (Some x)
    obtain g rest where x: "x = (g, rest)" by (cases x)
    from "2.prems" Some x have "(a, b) = g \<or> (a, b) \<in> set (scan True rest)" by simp
    then show ?thesis
    proof
      assume "(a, b) = g"
      then show ?thesis using match_at_groups [of p "c # cs" a b rest] Some x by simp
    next
      assume "(a, b) \<in> set (scan True rest)"
      then show ?thesis using "2.IH"(2) [OF Some x [symmetric]] by simp
    qed
  qed
qed

lemma digit_val_nonneg: "is_digit c \<Longrightarrow> 0 \<le> digit_val c"
  by (simp add: is_digit_def digit_val_def)

lemma foldl_digits_nonneg:
  "0 \<le> a \<Longrightarrow> \<forall>c \<in> set ds. is_digit c \<Longrightarrow> 0 \<le> foldl (\<lambda>a c. 10 * a + digit_val c) a ds"
proof (induction ds arbitrary: a)
  case Nil then show ?case by simp
next
  case (Cons d ds)
  then have "0 \<le> 10 * a + digit_val d" using digit_val_nonneg [of d] by simp
  then show ?case using Cons by simp
qed

lemma int_of_digits_nonneg: "\<forall>c \<in> set ds. is_digit c \<Longrightarrow> 0 \<le> int_of_digits ds"
  by (simp add: int_of_digits_def foldl_digits_nonneg)

lemma ratio_pairs_nonneg:
  assumes "(n, d) \<in> set (ratio_pairs text)"
  shows "0 \<le> n \<and> 0 \<le> d"
proof -
  from assms obtain a b where ab: "(a, b) \<in> set (findall text)"
    and nd: "n = int_of_digits a" "d = int_of_digits b"
    by (auto simp: ratio_pairs_def)
  from scan_groups [of a b False "text"] ab show ?thesis
    by (simp add: nd findall_def int_of_digits_nonneg)
qed

lemma extract_exact_ratio_Some:
  assumes "extract_exact_ratio text e = Some s"
  shows "\<exists>n. (n, e) \<in> set (ratio_pairs text) \<and> s = fmt_ratio n e"
proof -
  let ?ex = "{n. (n, e) \<in> set (ratio_pairs text)}"
  let ?sn = "{n. (n, e) \<in> set (ratio_pairs text) \<and> n \<le> e}"
  have fin: "finite ?ex"
  proof (rule finite_subset)
    show "?ex \<subseteq> fst ` set (ratio_pairs text)" by force
    show "finite (fst ` set (ratio_pairs text))" by simp
  qed
  have sub: "?sn \<subseteq> ?ex" by blast
  then have fin': "finite ?sn" using fin by (rule finite_subset)
  from assms have ne: "?ex \<noteq> {}"
    and s: "s = fmt_ratio (if ?sn = {} then Max ?ex else Max ?sn) e"
    unfolding extract_exact_ratio_eq [of "text" e] Let_def by (auto split: if_splits)
  have "(if ?sn = {} then Max ?ex else Max ?sn) \<in> ?ex"
  proof (cases "?sn = {}")
    case True
    then show ?thesis using Max_in [OF fin ne] by presburger
  next
    case False
    then show ?thesis using Max_in [OF fin' False] sub by auto
  qed
  then show ?thesis using s by blast
qed


subsection \<open>The pairs that the scan finds\<close>

lemma space_not_word: "is_space c \<Longrightarrow> \<not> is_word c \<and> \<not> is_digit c"
  by (auto simp: is_space_def is_word_def is_digit_def)

lemma slash_class: "\<not> is_word CHR ''/''" "\<not> is_digit CHR ''/''" "\<not> is_space CHR ''/''"
  by (simp_all add: is_word_def is_digit_def is_space_def code_def)

lemma digit_is_word: "is_digit c \<Longrightarrow> is_word c"
  by (auto simp: is_digit_def is_word_def)

lemma take_drop_run:
  assumes "list_all P xs" "ys = [] \<or> \<not> P (hd ys)"
  shows "takeWhile P (xs @ ys) = xs" "dropWhile P (xs @ ys) = ys"
proof -
  have a: "\<forall>x \<in> set xs. P x" using assms(1) by (simp add: list_all_iff)
  have t: "takeWhile P ys = []" using assms(2) by (cases ys) auto
  have d: "dropWhile P ys = ys" using assms(2) by (cases ys) auto
  show "takeWhile P (xs @ ys) = xs" using a t by (simp add: takeWhile_append2)
  show "dropWhile P (xs @ ys) = ys" using a d by (simp add: dropWhile_append2)
qed

lemma match_at_complete:
  assumes "delimited_pair pre a ws1 ws2 b post"
  shows "match_at False (a @ ws1 @ CHR ''/'' # ws2 @ b @ post) = Some ((a, b), post)"
proof -
  from assms have ne: "a \<noteq> []" "b \<noteq> []"
    and da: "list_all is_digit a" and db: "list_all is_digit b"
    and s1: "list_all is_space ws1" and s2: "list_all is_space ws2"
    and rb: "post = [] \<or> \<not> is_word (hd post)"
    by (simp_all add: delimited_pair_def)
  let ?r1 = "ws1 @ CHR ''/'' # ws2 @ b @ post"
  have h1: "?r1 = [] \<or> \<not> is_digit (hd ?r1)"
    using s1 space_not_word slash_class by (cases ws1) (auto simp: list_all_iff)
  have t1: "takeWhile is_digit (a @ ?r1) = a" and d1: "dropWhile is_digit (a @ ?r1) = ?r1"
    using take_drop_run [OF da h1] by simp_all
  have d2: "dropWhile is_space ?r1 = CHR ''/'' # ws2 @ b @ post"
    using take_drop_run(2) [OF s1, of "CHR ''/'' # ws2 @ b @ post"] slash_class by simp
  have hb: "is_digit (hd b)" using ne db by (cases b) (auto simp: list_all_iff)
  have h3: "b @ post = [] \<or> \<not> is_space (hd (b @ post))"
    using ne hb space_not_word by (cases b) auto
  have d3: "dropWhile is_space (ws2 @ b @ post) = b @ post"
    using take_drop_run(2) [OF s2 h3] by simp
  have h4: "post = [] \<or> \<not> is_digit (hd post)" using rb digit_is_word by blast
  have t4: "takeWhile is_digit (b @ post) = b" and d4: "dropWhile is_digit (b @ post) = post"
    using take_drop_run [OF db h4] by simp_all
  have "match_at False (a @ ?r1) =
      (case post of [] \<Rightarrow> Some ((a, b), post)
       | c' # x \<Rightarrow> if is_word c' then None else Some ((a, b), post))"
    unfolding match_at_def Let_def t1 d1 d2 list.case d3 t4 d4 using ne by simp
  then show ?thesis using rb by (cases post) simp_all
qed

lemma match_at_sound:
  assumes "match_at p s = Some ((a, b), rest)"
  shows "\<not> p \<and> (\<exists>ws1 ws2. s = a @ ws1 @ CHR ''/'' # ws2 @ b @ rest \<and> delimited_pair [] a ws1 ws2 b rest)"
proof -
  from assms have np: "\<not> p" by (auto simp: match_at_def split: if_splits)
  define r1 where "r1 = dropWhile is_digit s"
  define ws1 where "ws1 = takeWhile is_space r1"
  from assms obtain r3 where
    a: "a = takeWhile is_digit s" "a \<noteq> []"
    and r3: "dropWhile is_space r1 = CHR ''/'' # r3"
    and b: "b = takeWhile is_digit (dropWhile is_space r3)" "b \<noteq> []"
    and rest: "rest = dropWhile is_digit (dropWhile is_space r3)"
    and rb: "rest = [] \<or> \<not> is_word (hd rest)"
    unfolding r1_def
    by (auto simp: match_at_def Let_def split: if_splits list.splits)
  define ws2 where "ws2 = takeWhile is_space r3"
  have "s = a @ r1" by (simp add: a r1_def)
  moreover have "r1 = ws1 @ CHR ''/'' # r3"
    using r3 takeWhile_dropWhile_id [of is_space r1] by (simp add: ws1_def)
  moreover have "r3 = ws2 @ dropWhile is_space r3"
    by (simp add: ws2_def)
  moreover have "dropWhile is_space r3 = b @ rest" by (simp add: b rest)
  ultimately have s: "s = a @ ws1 @ CHR ''/'' # ws2 @ b @ rest" by simp
  have "list_all is_digit a" "list_all is_digit b" "list_all is_space ws1" "list_all is_space ws2"
    unfolding a b ws1_def ws2_def list_all_iff by (auto dest: set_takeWhileD)
  then have "delimited_pair [] a ws1 ws2 b rest"
    using a b rb by (simp add: delimited_pair_def)
  with np s show ?thesis by blast
qed

lemma delimited_cons:
  assumes "delimited_pair pre a ws1 ws2 b post" "pre = [] \<longrightarrow> \<not> is_word c"
  shows "delimited_pair (c # pre) a ws1 ws2 b post"
  using assms by (cases pre) (auto simp: delimited_pair_def)

lemma delimited_app:
  assumes "delimited_pair pre a ws1 ws2 b post" "pre \<noteq> []"
  shows "delimited_pair (m @ pre) a ws1 ws2 b post"
  using assms by (auto simp: delimited_pair_def)

lemma delimited_tail:
  assumes "delimited_pair (c # pre) a ws1 ws2 b post"
  shows "delimited_pair pre a ws1 ws2 b post" "pre = [] \<longrightarrow> \<not> is_word c"
  using assms by (cases pre; auto simp: delimited_pair_def)+

lemma scan_sound:
  "(a, b) \<in> set (scan p s) \<Longrightarrow>
     \<exists>pre ws1 ws2 post. s = pre @ a @ ws1 @ CHR ''/'' # ws2 @ b @ post \<and>
        delimited_pair pre a ws1 ws2 b post \<and> (pre = [] \<longrightarrow> \<not> p)"
proof (induction p s rule: scan.induct)
  case (1 p)
  then show ?case by simp
next
  case (2 p c cs)
  show ?case
  proof (cases "match_at p (c # cs)")
    case None
    with "2.prems" have "(a, b) \<in> set (scan (is_word c) cs)" by simp
    from "2.IH"(1) [OF None this] obtain pre ws1 ws2 post where
      s: "cs = pre @ a @ ws1 @ CHR ''/'' # ws2 @ b @ post"
      and d: "delimited_pair pre a ws1 ws2 b post" and l: "pre = [] \<longrightarrow> \<not> is_word c"
      by blast
    have "c # cs = (c # pre) @ a @ ws1 @ CHR ''/'' # ws2 @ b @ post" using s by simp
    moreover have "delimited_pair (c # pre) a ws1 ws2 b post" by (rule delimited_cons [OF d l])
    ultimately show ?thesis by blast
  next
    case (Some x)
    obtain g rest where x: "x = (g, rest)" by (cases x)
    obtain a0 b0 where g: "g = (a0, b0)" by (cases g)
    from match_at_sound [of p "c # cs" a0 b0 rest] Some x g obtain w1 w2 where
      np: "\<not> p" and s: "c # cs = a0 @ w1 @ CHR ''/'' # w2 @ b0 @ rest"
      and d0: "delimited_pair [] a0 w1 w2 b0 rest"
      by auto
    from "2.prems" Some x g have "(a, b) = (a0, b0) \<or> (a, b) \<in> set (scan True rest)" by simp
    then show ?thesis
    proof
      assume "(a, b) = (a0, b0)"
      then have "c # cs = [] @ a @ w1 @ CHR ''/'' # w2 @ b @ rest"
        "delimited_pair [] a w1 w2 b rest" using s d0 by simp_all
      then show ?thesis using np by blast
    next
      assume "(a, b) \<in> set (scan True rest)"
      from "2.IH"(2) [OF Some x [symmetric] this] obtain pre ws1 ws2 post where
        r: "rest = pre @ a @ ws1 @ CHR ''/'' # ws2 @ b @ post"
        and d: "delimited_pair pre a ws1 ws2 b post" and l: "pre \<noteq> []"
        by blast
      let ?m = "a0 @ w1 @ CHR ''/'' # w2 @ b0"
      have "c # cs = (?m @ pre) @ a @ ws1 @ CHR ''/'' # ws2 @ b @ post" using s r by simp
      moreover have "delimited_pair (?m @ pre) a ws1 ws2 b post" by (rule delimited_app [OF d l])
      moreover have "?m @ pre \<noteq> []" using l by simp
      ultimately show ?thesis by blast
    qed
  qed
qed

lemma split_at_boundary:
  assumes eq: "xs @ ms @ zs = p @ u"
    and xs: "xs \<noteq> []" "\<forall>c \<in> set xs. is_word c"
    and ms: "\<forall>c \<in> set ms. \<not> is_digit c"
    and zs: "\<forall>c \<in> set zs. is_word c"
    and p: "p \<noteq> []" "\<not> is_word (last p)"
    and u: "u \<noteq> []" "is_digit (hd u)"
  shows "p = xs @ ms \<and> u = zs"
proof -
  from eq obtain v where "(xs = p @ v \<and> v @ ms @ zs = u) \<or> (xs @ v = p \<and> ms @ zs = v @ u)"
    unfolding append_eq_append_conv2 by blast
  then show ?thesis
  proof
    assume "xs = p @ v \<and> v @ ms @ zs = u"
    then have "last p \<in> set xs" using p(1) by auto
    then show ?thesis using xs(2) p(2) by blast
  next
    assume a: "xs @ v = p \<and> ms @ zs = v @ u"
    have vne: "v \<noteq> []"
    proof
      assume "v = []"
      then have "last p = last xs" using a by auto
      then have "last p \<in> set xs" using xs(1) by simp
      then show False using xs(2) p(2) by blast
    qed
    from a obtain w where "(ms = v @ w \<and> w @ zs = u) \<or> (ms @ w = v \<and> zs = w @ u)"
      unfolding append_eq_append_conv2 by blast
    then show ?thesis
    proof
      assume b: "ms = v @ w \<and> w @ zs = u"
      have "w = []"
      proof (rule ccontr)
        assume "w \<noteq> []"
        then have "hd u = hd w" "hd w \<in> set ms" using b by (cases w; auto)+
        then show False using ms u(2) by auto
      qed
      then show ?thesis using a b by simp
    next
      assume b: "ms @ w = v \<and> zs = w @ u"
      have "w = []"
      proof (rule ccontr)
        assume "w \<noteq> []"
        then have "last p = last w" "last w \<in> set zs" using a b by auto
        then show False using zs p(2) by auto
      qed
      then show ?thesis using a b by simp
    qed
  qed
qed

lemma same_digit_run:
  assumes "x @ r = y @ t" "list_all is_digit x" "list_all is_digit y"
    "r = [] \<or> \<not> is_digit (hd r)" "t = [] \<or> \<not> is_digit (hd t)"
  shows "x = y \<and> r = t"
proof -
  have "takeWhile is_digit (x @ r) = x" "dropWhile is_digit (x @ r) = r"
    using take_drop_run [OF assms(2) assms(4)] by simp_all
  moreover have "takeWhile is_digit (y @ t) = y" "dropWhile is_digit (y @ t) = t"
    using take_drop_run [OF assms(3) assms(5)] by simp_all
  ultimately show ?thesis using assms(1) by simp
qed

lemma scan_complete:
  "s = pre @ a @ ws1 @ CHR ''/'' # ws2 @ b @ post \<Longrightarrow>
   delimited_pair pre a ws1 ws2 b post \<Longrightarrow> (pre = [] \<longrightarrow> \<not> p) \<Longrightarrow>
     (a, b) \<in> set (scan p s) \<or>
     (\<exists>pre' a' ws1' ws2'. pre = pre' @ a' @ ws1' @ CHR ''/'' # ws2' \<and>
        delimited_pair pre' a' ws1' ws2' a (ws1 @ CHR ''/'' # ws2 @ b @ post) \<and>
        (pre' = [] \<longrightarrow> \<not> p) \<and> (a', a) \<in> set (scan p s))"
proof (induction p s arbitrary: pre rule: scan.induct)
  case (1 p)
  then show ?case by simp
next
  case (2 p c cs)
  let ?tail = "a @ ws1 @ CHR ''/'' # ws2 @ b @ post"
  let ?post' = "ws1 @ CHR ''/'' # ws2 @ b @ post"
  note s = "2.prems"(1) and d = "2.prems"(2) and l = "2.prems"(3)
  have ane: "a \<noteq> []" and da: "list_all is_digit a" using d by (simp_all add: delimited_pair_def)
  show ?case
  proof (cases pre)
    case Nil
    then have "match_at p (c # cs) = Some ((a, b), post)"
      using match_at_complete [OF d] s l by simp
    then show ?thesis by simp
  next
    case (Cons c' pre1)
    then have c': "c' = c" and cs: "cs = pre1 @ ?tail" using s by simp_all
    have d1: "delimited_pair pre1 a ws1 ws2 b post" and l1: "pre1 = [] \<longrightarrow> \<not> is_word c"
      using delimited_tail [of c pre1] d Cons c' by simp_all
    show ?thesis
    proof (cases "match_at p (c # cs)")
      case None
      from "2.IH"(1) [OF None cs d1 l1]
      show ?thesis
      proof
        assume "(a, b) \<in> set (scan (is_word c) cs)"
        then show ?thesis using None by simp
      next
        assume "\<exists>pre' a' ws1' ws2'. pre1 = pre' @ a' @ ws1' @ CHR ''/'' # ws2' \<and>
          delimited_pair pre' a' ws1' ws2' a ?post' \<and>
          (pre' = [] \<longrightarrow> \<not> is_word c) \<and> (a', a) \<in> set (scan (is_word c) cs)"
        then obtain pre' a' ws1' ws2' where
          e: "pre1 = pre' @ a' @ ws1' @ CHR ''/'' # ws2'"
          and d': "delimited_pair pre' a' ws1' ws2' a ?post'"
          and l': "pre' = [] \<longrightarrow> \<not> is_word c" and m: "(a', a) \<in> set (scan (is_word c) cs)"
          by blast
        have "pre = (c # pre') @ a' @ ws1' @ CHR ''/'' # ws2'" using e Cons c' by simp
        moreover have "delimited_pair (c # pre') a' ws1' ws2' a ?post'"
          by (rule delimited_cons [OF d' l'])
        moreover have "(a', a) \<in> set (scan p (c # cs))" using m None by simp
        ultimately show ?thesis by blast
      qed
    next
      case (Some x)
      obtain g rest where x: "x = (g, rest)" by (cases x)
      obtain a0 b0 where g: "g = (a0, b0)" by (cases g)
      from match_at_sound [of p "c # cs" a0 b0 rest] Some x g obtain w1 w2 where
        np: "\<not> p" and s0: "c # cs = a0 @ w1 @ CHR ''/'' # w2 @ b0 @ rest"
        and d0: "delimited_pair [] a0 w1 w2 b0 rest"
        by auto
      have sc: "scan p (c # cs) = (a0, b0) # scan True rest" using Some x g by simp
      let ?ms = "w1 @ [CHR ''/''] @ w2"
      have a0: "a0 \<noteq> []" "\<forall>c \<in> set a0. is_word c" and b0: "b0 \<noteq> []" "\<forall>c \<in> set b0. is_word c"
        and db0: "list_all is_digit b0"
        and rb0: "rest = [] \<or> \<not> is_word (hd rest)"
        using d0 digit_is_word by (auto simp: delimited_pair_def list_all_iff)
      have ms: "\<forall>c \<in> set ?ms. \<not> is_digit c"
        using d0 space_not_word slash_class by (auto simp: delimited_pair_def list_all_iff)
      have pne: "pre \<noteq> []" and lp: "\<not> is_word (last pre)"
        using Cons d by (auto simp: delimited_pair_def)
      have eq: "(a0 @ ?ms @ b0) @ rest = pre @ ?tail" using s0 s by simp
      then obtain us where
        "(a0 @ ?ms @ b0 = pre @ us \<and> us @ rest = ?tail) \<or> ((a0 @ ?ms @ b0) @ us = pre \<and> rest = us @ ?tail)"
        unfolding append_eq_append_conv2 [of "a0 @ ?ms @ b0" rest pre ?tail] by blast
      then show ?thesis
      proof
        assume B: "(a0 @ ?ms @ b0) @ us = pre \<and> rest = us @ ?tail"
        have une: "us \<noteq> []"
        proof
          assume "us = []"
          then have "last pre = last b0" using B b0(1) by auto
          then have "last pre \<in> set b0" using b0(1) by simp
          then show False using b0(2) lp by blast
        qed
        have du: "delimited_pair us a ws1 ws2 b post"
          using d B une by (auto simp: delimited_pair_def)
        have r: "rest = us @ ?tail" using B by simp
        have lu: "us = [] \<longrightarrow> \<not> True" using une by simp
        from "2.IH"(2) [OF Some x [symmetric] r du lu]
        show ?thesis
        proof
          assume "(a, b) \<in> set (scan True rest)"
          then show ?thesis using sc by simp
        next
          assume "\<exists>pre' a' ws1' ws2'. us = pre' @ a' @ ws1' @ CHR ''/'' # ws2' \<and>
            delimited_pair pre' a' ws1' ws2' a ?post' \<and>
            (pre' = [] \<longrightarrow> \<not> True) \<and> (a', a) \<in> set (scan True rest)"
          then obtain pre' a' ws1' ws2' where
            e: "us = pre' @ a' @ ws1' @ CHR ''/'' # ws2'"
            and d': "delimited_pair pre' a' ws1' ws2' a ?post'"
            and l': "pre' \<noteq> []" and m: "(a', a) \<in> set (scan True rest)"
            by blast
          have "pre = ((a0 @ ?ms @ b0) @ pre') @ a' @ ws1' @ CHR ''/'' # ws2'" using e B by simp
          moreover have "delimited_pair ((a0 @ ?ms @ b0) @ pre') a' ws1' ws2' a ?post'"
            by (rule delimited_app [OF d' l'])
          moreover have "(a0 @ ?ms @ b0) @ pre' \<noteq> []" using l' by simp
          moreover have "(a', a) \<in> set (scan p (c # cs))" using m sc by simp
          ultimately show ?thesis by blast
        qed
      next
        assume A: "a0 @ ?ms @ b0 = pre @ us \<and> us @ rest = ?tail"
        show ?thesis
        proof (cases "us = []")
          case True
          then have "last pre = last b0" using A b0(1) by (metis append_Nil2 append_assoc last_appendR)
          then have "last pre \<in> set b0" using b0(1) by simp
          then show ?thesis using b0(2) lp by blast
        next
          case False
          have "hd us = hd a" using A False ane by (cases us; cases a; auto)
          then have hu: "is_digit (hd us)" using ane da by (cases a) (auto simp: list_all_iff)
          have sp: "pre = a0 @ ?ms \<and> us = b0"
            using split_at_boundary [of a0 ?ms b0 pre us] A a0 ms b0(2) pne lp False hu by blast
          have "b0 @ rest = a @ ?post'" using A sp by simp
          moreover have "rest = [] \<or> \<not> is_digit (hd rest)" using rb0 digit_is_word by blast
          moreover have "?post' = [] \<or> \<not> is_digit (hd ?post')"
            using d space_not_word slash_class by (cases ws1) (auto simp: delimited_pair_def list_all_iff)
          ultimately have ab: "b0 = a \<and> rest = ?post'"
            using same_digit_run [of b0 rest a ?post'] db0 da by blast
          have "pre = [] @ a0 @ w1 @ CHR ''/'' # w2" using sp by simp
          moreover have "delimited_pair [] a0 w1 w2 a ?post'" using d0 ab by simp
          moreover have "(a0, a) \<in> set (scan p (c # cs))" using sc ab by simp
          ultimately show ?thesis using np by blast
        qed
      qed
    qed
  qed
qed

lemma ratio_pairs_sound:
  assumes "(n, d) \<in> set (ratio_pairs t)"
  shows "\<exists>pre a ws1 ws2 b post. t = pre @ a @ ws1 @ CHR ''/'' # ws2 @ b @ post \<and>
           delimited_pair pre a ws1 ws2 b post \<and> n = int_of_digits a \<and> d = int_of_digits b"
proof -
  from assms obtain a b where ab: "(a, b) \<in> set (scan False t)"
    and nd: "n = int_of_digits a" "d = int_of_digits b"
    by (auto simp: ratio_pairs_def findall_def)
  from scan_sound [OF ab] nd show ?thesis by blast
qed

lemma ratio_pairs_mem: "(a, b) \<in> set (scan False t) \<Longrightarrow> (int_of_digits a, int_of_digits b) \<in> set (ratio_pairs t)"
  by (force simp: ratio_pairs_def findall_def)

lemma ratio_pairs_complete:
  assumes "t = pre @ a @ ws1 @ CHR ''/'' # ws2 @ b @ post" "delimited_pair pre a ws1 ws2 b post"
  shows "(int_of_digits a, int_of_digits b) \<in> set (ratio_pairs t) \<or>
     (\<exists>pre' a' ws1' ws2'. pre = pre' @ a' @ ws1' @ CHR ''/'' # ws2' \<and>
        delimited_pair pre' a' ws1' ws2' a (ws1 @ CHR ''/'' # ws2 @ b @ post) \<and>
        (int_of_digits a', int_of_digits a) \<in> set (ratio_pairs t))"
proof -
  have "(a, b) \<in> set (scan False t) \<or>
     (\<exists>pre' a' ws1' ws2'. pre = pre' @ a' @ ws1' @ CHR ''/'' # ws2' \<and>
        delimited_pair pre' a' ws1' ws2' a (ws1 @ CHR ''/'' # ws2 @ b @ post) \<and>
        (pre' = [] \<longrightarrow> \<not> False) \<and> (a', a) \<in> set (scan False t))"
    by (rule scan_complete [OF assms]) simp
  then show ?thesis
  proof
    assume "(a, b) \<in> set (scan False t)"
    then show ?thesis using ratio_pairs_mem by blast
  next
    assume "\<exists>pre' a' ws1' ws2'. pre = pre' @ a' @ ws1' @ CHR ''/'' # ws2' \<and>
        delimited_pair pre' a' ws1' ws2' a (ws1 @ CHR ''/'' # ws2 @ b @ post) \<and>
        (pre' = [] \<longrightarrow> \<not> False) \<and> (a', a) \<in> set (scan False t)"
    then show ?thesis using ratio_pairs_mem by blast
  qed
qed

lemma map_filter_mem: "(y \<in> set (List.map_filter f xs)) = (\<exists>x \<in> set xs. f x = Some y)"
  by (induction xs) (auto simp: map_filter_simps split: option.splits)

lemma in_tails: "ys \<in> set (tails (xs @ ys))"
proof (induction xs)
  case Nil
  show ?case by (cases ys) simp_all
next
  case (Cons x xs)
  then show ?case by simp
qed

lemma in_inits: "xs \<in> set (inits (xs @ ys))"
proof (induction xs)
  case Nil
  show ?case by (cases ys) simp_all
next
  case (Cons x xs)
  then show ?case by simp
qed

lemma in_substrings: "m \<in> set (substrings (pre @ m @ post))"
  unfolding substrings_def using in_tails [of "m @ post" pre] in_inits [of m post] by auto

lemma whole_match_pair:
  assumes "delimited_pair pre a ws1 ws2 b post"
  shows "whole_match (a @ ws1 @ CHR ''/'' # ws2 @ b) = Some (int_of_digits a, int_of_digits b)"
proof -
  from assms have ne: "a \<noteq> []" "b \<noteq> []"
    and da: "list_all is_digit a" and db: "list_all is_digit b"
    and s1: "list_all is_space ws1" and s2: "list_all is_space ws2"
    by (simp_all add: delimited_pair_def)
  let ?r1 = "ws1 @ CHR ''/'' # ws2 @ b"
  have h1: "?r1 = [] \<or> \<not> is_digit (hd ?r1)"
    using s1 space_not_word slash_class by (cases ws1) (auto simp: list_all_iff)
  have t1: "takeWhile is_digit (a @ ?r1) = a" and d1: "dropWhile is_digit (a @ ?r1) = ?r1"
    using take_drop_run [OF da h1] by simp_all
  have d2: "dropWhile is_space ?r1 = CHR ''/'' # ws2 @ b"
    using take_drop_run(2) [OF s1, of "CHR ''/'' # ws2 @ b"] slash_class by simp
  have hb: "is_digit (hd b)" using ne db by (cases b) (auto simp: list_all_iff)
  have h3: "b = [] \<or> \<not> is_space (hd b)" using hb space_not_word by blast
  have d3: "dropWhile is_space (ws2 @ b) = b"
    using take_drop_run(2) [OF s2 h3] by simp
  have t4: "takeWhile is_digit b = b" and d4: "dropWhile is_digit b = []"
    using take_drop_run [OF db, of "[]"] by simp_all
  show ?thesis
    unfolding whole_match_def Let_def t1 d1 d2 using ne by (simp add: d3 t4 d4)
qed

lemma ratio_pairs_subset_spec: "set (ratio_pairs t) \<subseteq> set (spec_substring_pairs t)"
proof
  fix x assume x: "x \<in> set (ratio_pairs t)"
  obtain n d where nd: "x = (n, d)" by (cases x)
  from ratio_pairs_sound [of n d t] x nd obtain pre a ws1 ws2 b post where
    t: "t = pre @ a @ ws1 @ CHR ''/'' # ws2 @ b @ post"
    and dl: "delimited_pair pre a ws1 ws2 b post"
    and v: "n = int_of_digits a" "d = int_of_digits b"
    by blast
  let ?m = "a @ ws1 @ CHR ''/'' # ws2 @ b"
  have "t = pre @ ?m @ post" using t by simp
  then have "?m \<in> set (substrings t)" using in_substrings [of ?m pre post] by simp
  moreover have "whole_match ?m = Some x" using whole_match_pair [OF dl] nd v by simp
  ultimately show "x \<in> set (spec_substring_pairs t)"
    unfolding spec_substring_pairs_def map_filter_mem by blast
qed


text \<open>
  Claim C1, as stated, speaks of the substring pairs \<open>N/D\<close> of the text. The function
  works on the matches of \<open>re.findall\<close>, which are delimited by word boundaries and do
  not overlap. In \<open>70/66/66\<close> the substring \<open>66/66\<close> is a pair with the expected
  denominator and a numerator within range, but the scan finds only \<open>70/66\<close>, and that is
  what the function returns. In \<open>1/2/3\<close> with expected total 3 the substring \<open>2/3\<close> is
  not found and the function returns None; likewise for \<open>12/66\<close> in \<open>a12/66\<close>, where a
  letter stands before the numerator.
\<close>

theorem overlapping_pairs_counterexample:
  "(66, 66) \<in> set (spec_substring_pairs ''70/66/66'') \<and>
   extract_exact_ratio ''70/66/66'' 66 = Some ''70/66'' \<and>
   (2, 3) \<in> set (spec_substring_pairs ''1/2/3'') \<and>
   extract_exact_ratio ''1/2/3'' 3 = None \<and>
   (12, 66) \<in> set (spec_substring_pairs ''a12/66'') \<and>
   extract_exact_ratio ''a12/66'' 66 = None"
  by code_simp


text \<open>
  Claim C1, amended. For every text and every expected total, \<open>_extract_exact_ratio\<close>
  works on the pairs found by the scan of the text, from left to right, for non-overlapping
  matches of the pattern. Every found pair \<open>N/D\<close> is a delimited pair of the text, hence
  one of its substring pairs; every delimited pair of the text is found, unless its first
  integer is the second integer of a found pair that ends there (as \<open>66/66\<close> in
  \<open>70/66/66\<close>). The function returns None when no found pair has \<open>D\<close> equal to the
  expected total; otherwise it returns \<open>N/expected_total\<close> where \<open>N\<close> is the largest
  numerator among the found exact-denominator pairs with \<open>N \<le> expected_total\<close>, or, when
  there is no such pair, the largest numerator among all found exact-denominator pairs. A
  returned string, read back the way \<open>check_all_sites_once\<close> reads it, always has the
  expected total as its denominator.
\<close>

theorem extract_exact_ratio_policy:
  "extract_exact_ratio text e =
     (let exact = {n. (n, e) \<in> set (ratio_pairs text)};
          sane = {n. (n, e) \<in> set (ratio_pairs text) \<and> n \<le> e}
      in if exact = {} then None
         else Some (fmt_ratio (if sane = {} then Max exact else Max sane) e))
   \<and> (\<forall>s. extract_exact_ratio text e = Some s \<longrightarrow>
         (\<exists>n. (n, e) \<in> set (ratio_pairs text) \<and> s = fmt_ratio n e \<and> parse_nm s = Inr (n, e)))
   \<and> (\<forall>n d. (n, d) \<in> set (ratio_pairs text) \<longrightarrow>
         (\<exists>pre a ws1 ws2 b post. text = pre @ a @ ws1 @ CHR ''/'' # ws2 @ b @ post \<and>
            delimited_pair pre a ws1 ws2 b post \<and> n = int_of_digits a \<and> d = int_of_digits b))
   \<and> (\<forall>pre a ws1 ws2 b post.
         text = pre @ a @ ws1 @ CHR ''/'' # ws2 @ b @ post \<and> delimited_pair pre a ws1 ws2 b post \<longrightarrow>
           (int_of_digits a, int_of_digits b) \<in> set (ratio_pairs text) \<or>
           (\<exists>pre' a' ws1' ws2'. pre = pre' @ a' @ ws1' @ CHR ''/'' # ws2' \<and>
              delimited_pair pre' a' ws1' ws2' a (ws1 @ CHR ''/'' # ws2 @ b @ post) \<and>
              (int_of_digits a', int_of_digits a) \<in> set (ratio_pairs text)))
   \<and> set (ratio_pairs text) \<subseteq> set (spec_substring_pairs text)"
proof (intro conjI allI impI)
  show "extract_exact_ratio text e =
     (let exact = {n. (n, e) \<in> set (ratio_pairs text)};
          sane = {n. (n, e) \<in> set (ratio_pairs text) \<and> n \<le> e}
      in if exact = {} then None
         else Some (fmt_ratio (if sane = {} then Max exact else Max sane) e))"
    by (rule extract_exact_ratio_eq)
  show "set (ratio_pairs text) \<subseteq> set (spec_substring_pairs text)"
    by (rule ratio_pairs_subset_spec)
next
  fix s assume "extract_exact_ratio text e = Some s"
  then obtain n where n: "(n, e) \<in> set (ratio_pairs text)" "s = fmt_ratio n e"
    using extract_exact_ratio_Some by blast
  then have "parse_nm s = Inr (n, e)"
    using ratio_pairs_nonneg [OF n(1)] by (simp add: parse_nm_fmt_ratio)
  with n show "\<exists>n. (n, e) \<in> set (ratio_pairs text) \<and> s = fmt_ratio n e \<and> parse_nm s = Inr (n, e)"
    by blast
next
  fix n d assume "(n, d) \<in> set (ratio_pairs text)"
  then show "\<exists>pre a ws1 ws2 b post. text = pre @ a @ ws1 @ CHR ''/'' # ws2 @ b @ post \<and>
            delimited_pair pre a ws1 ws2 b post \<and> n = int_of_digits a \<and> d = int_of_digits b"
    by (rule ratio_pairs_sound)
next
  fix pre a ws1 ws2 b post
  assume h: "text = pre @ a @ ws1 @ CHR ''/'' # ws2 @ b @ post \<and> delimited_pair pre a ws1 ws2 b post"
  from h have h1: "text = pre @ a @ ws1 @ CHR ''/'' # ws2 @ b @ post" by (rule conjunct1)
  from h have h2: "delimited_pair pre a ws1 ws2 b post" by (rule conjunct2)
  show "(int_of_digits a, int_of_digits b) \<in> set (ratio_pairs text) \<or>
           (\<exists>pre' a' ws1' ws2'. pre = pre' @ a' @ ws1' @ CHR ''/'' # ws2' \<and>
              delimited_pair pre' a' ws1' ws2' a (ws1 @ CHR ''/'' # ws2 @ b @ post) \<and>
              (int_of_digits a', int_of_digits a) \<in> set (ratio_pairs text))"
    by (rule ratio_pairs_complete [OF h1 h2])
qed


lemma pairs_chain: "ratio_pairs ''70/66/66'' = [(70, 66)]"
  by code_simp

lemma fmt_70_66: "fmt_ratio 70 66 = ''70/66''"
  by code_simp

lemma chain_delimited: "delimited_pair ''70/'' ''66'' [] [] ''66'' []"
  by code_simp

lemma int_66: "int_of_digits ''66'' = 66"
  by code_simp

theorem extract_exact_ratio_policy_witness:
  "extract_exact_ratio ''70/66/66'' 66 = Some ''70/66'' \<and> parse_nm ''70/66'' = Inr (70, 66) \<and>
   (70, 66) \<in> set (ratio_pairs ''70/66/66'') \<and>
   (\<exists>pre a ws1 ws2 b post. ''70/66/66'' = pre @ a @ ws1 @ CHR ''/'' # ws2 @ b @ post \<and>
      delimited_pair pre a ws1 ws2 b post \<and> 70 = int_of_digits a \<and> 66 = int_of_digits b) \<and>
   ''70/66/66'' = ''70/'' @ ''66'' @ [] @ CHR ''/'' # [] @ ''66'' @ [] \<and>
   delimited_pair ''70/'' ''66'' [] [] ''66'' [] \<and>
   (66, 66) \<notin> set (ratio_pairs ''70/66/66'') \<and>
   (\<exists>pre' a' ws1' ws2'. ''70/'' = pre' @ a' @ ws1' @ CHR ''/'' # ws2' \<and>
      delimited_pair pre' a' ws1' ws2' ''66'' ([] @ CHR ''/'' # [] @ ''66'' @ []) \<and>
      (int_of_digits a', 66) \<in> set (ratio_pairs ''70/66/66''))"
proof -
  note t = extract_exact_ratio_policy [of "''70/66/66''" 66]
  note t_policy = t [THEN conjunct1]
  note t_sound = t [THEN conjunct2, THEN conjunct2, THEN conjunct1, rule_format]
  note t_complete = t [THEN conjunct2, THEN conjunct2, THEN conjunct2, THEN conjunct1, rule_format]
  have a: "{n. (n, 66) \<in> set (ratio_pairs ''70/66/66'')} = {70}"
    by (auto simp: pairs_chain)
  have b: "{n. (n, 66) \<in> set (ratio_pairs ''70/66/66'') \<and> n \<le> 66} = {}"
    by (auto simp: pairs_chain)
  have c: "extract_exact_ratio ''70/66/66'' 66 = Some ''70/66''"
    using t_policy unfolding a b by (simp add: fmt_70_66)
  have d: "parse_nm ''70/66'' = Inr (70, 66)"
    by code_simp
  have m: "(70, 66) \<in> set (ratio_pairs ''70/66/66'')" by (simp add: pairs_chain)
  have e: "\<exists>pre a ws1 ws2 b post. ''70/66/66'' = pre @ a @ ws1 @ CHR ''/'' # ws2 @ b @ post \<and>
      delimited_pair pre a ws1 ws2 b post \<and> 70 = int_of_digits a \<and> 66 = int_of_digits b"
    by (rule t_sound [OF m])
  have f: "''70/66/66'' = ''70/'' @ ''66'' @ [] @ CHR ''/'' # [] @ ''66'' @ []" by simp
  have g: "(66, 66) \<notin> set (ratio_pairs ''70/66/66'')" by (simp add: pairs_chain)
  have "(int_of_digits ''66'', int_of_digits ''66'') \<in> set (ratio_pairs ''70/66/66'') \<or>
     (\<exists>pre' a' ws1' ws2'. ''70/'' = pre' @ a' @ ws1' @ CHR ''/'' # ws2' \<and>
        delimited_pair pre' a' ws1' ws2' ''66'' ([] @ CHR ''/'' # [] @ ''66'' @ []) \<and>
        (int_of_digits a', int_of_digits ''66'') \<in> set (ratio_pairs ''70/66/66''))"
    by (rule t_complete [OF conjI [OF f chain_delimited]])
  then have h: "\<exists>pre' a' ws1' ws2'. ''70/'' = pre' @ a' @ ws1' @ CHR ''/'' # ws2' \<and>
      delimited_pair pre' a' ws1' ws2' ''66'' ([] @ CHR ''/'' # [] @ ''66'' @ []) \<and>
      (int_of_digits a', 66) \<in> set (ratio_pairs ''70/66/66'')"
    unfolding int_66 using g by (elim disjE) (simp, assumption)
  show ?thesis
    by (intro conjI) (rule c d m e f chain_delimited g h)+
qed

subsection \<open>The empty text and the expected total 0\<close>

lemma pairs_5_0: "ratio_pairs ''5/0'' = [(5, 0)]"
  by code_simp

text \<open>
  Claim C9, as stated, says that a call with the expected total 0 is rejected. The function
  has no such check: on the text \<open>5/0\<close> it returns the ratio \<open>5/0\<close>.
\<close>

theorem zero_total_counterexample:
  "extract_exact_ratio ''5/0'' 0 = Some ''5/0'' \<and> parse_nm ''5/0'' = Inr (5, 0)"
  by code_simp


text \<open>
  Claim C9, amended. For the empty string the function returns None for every expected
  total. The expected total 0 is not rejected: the function returns None exactly when the
  text has no pair \<open>N/0\<close>, and any ratio it returns is such a pair of the text, with
  denominator 0.
\<close>

theorem empty_text_and_zero_total:
  "extract_exact_ratio [] e = None \<and>
   (extract_exact_ratio text 0 = None) = ({n. (n, 0) \<in> set (ratio_pairs text)} = {}) \<and>
   (\<forall>s. extract_exact_ratio text 0 = Some s \<longrightarrow>
      (\<exists>n. (n, 0) \<in> set (ratio_pairs text) \<and> parse_nm s = Inr (n, 0)))"
proof (intro conjI allI impI)
  show "extract_exact_ratio [] e = None" by (simp add: extract_exact_ratio_def)
  show "(extract_exact_ratio text 0 = None) = ({n. (n, 0) \<in> set (ratio_pairs text)} = {})"
    unfolding extract_exact_ratio_eq [of "text" 0] Let_def by (simp del: Collect_empty_eq)
next
  fix s assume s: "extract_exact_ratio text 0 = Some s"
  then obtain n where n: "(n, 0) \<in> set (ratio_pairs text)" "s = fmt_ratio n 0"
    using extract_exact_ratio_Some by blast
  then have "parse_nm s = Inr (n, 0)"
    using ratio_pairs_nonneg [OF n(1)] by (simp add: parse_nm_fmt_ratio)
  with n show "\<exists>n. (n, 0) \<in> set (ratio_pairs text) \<and> parse_nm s = Inr (n, 0)" by blast
qed



theorem empty_text_and_zero_total_witness:
  "extract_exact_ratio [] 66 = None \<and> extract_exact_ratio ''5/0'' 0 \<noteq> None \<and>
   (\<exists>n. parse_nm (the (extract_exact_ratio ''5/0'' 0)) = Inr (n, 0))"
proof -
  have ne: "{n. (n, 0) \<in> set (ratio_pairs ''5/0'')} \<noteq> {}" by (simp add: pairs_5_0)
  have a: "extract_exact_ratio ''5/0'' 0 \<noteq> None"
    using empty_text_and_zero_total [of 66 "''5/0''"] ne by simp
  then obtain s where s: "extract_exact_ratio ''5/0'' 0 = Some s" by blast
  then have "\<exists>n. parse_nm s = Inr (n, 0)"
    using empty_text_and_zero_total [of 66 "''5/0''"] by blast
  then show ?thesis using a s empty_text_and_zero_total [of 66 "''5/0''"] by simp
qed


subsection \<open>The cycle and the alert\<close>

lemma check_one_cases:
  "(status (check_one pg s) = Error \<and> all_connected (check_one pg s) = None \<and>
      outcome (check_one pg s) = None) \<or>
   (\<exists>n m. status (check_one pg s) = Success \<and> current (check_one pg s) = Some n \<and>
      total (check_one pg s) = Some m \<and> all_connected (check_one pg s) = Some (n = m) \<and>
      outcome (check_one pg s) = Some (n, m))"
  by (auto simp: check_one_def error_result_def outcome_def split: sum.splits)

lemma check_one_site: "site (check_one pg s) = label s"
  by (auto simp: check_one_def error_result_def split: sum.splits)

lemma check_all_map: "check_all_sites_once pg sites = map (check_one pg) sites"
  by (induction sites) auto

lemma popup_lines_check_all:
  "popup_lines (check_all_sites_once pg sites) =
     Inr (map (\<lambda>(l, n, m). alert_line l n m)
            (List.map_filter disconnected_site (check_all_sites_once pg sites)))"
proof (induction sites)
  case Nil
  show ?case by (simp add: map_filter_simps)
next
  case (Cons s ss)
  from check_one_cases [of pg s] show ?case
  proof
    assume "status (check_one pg s) = Error \<and> all_connected (check_one pg s) = None \<and>
      outcome (check_one pg s) = None"
    then show ?thesis using Cons by (simp add: map_filter_simps disconnected_site_def)
  next
    assume "\<exists>n m. status (check_one pg s) = Success \<and> current (check_one pg s) = Some n \<and>
      total (check_one pg s) = Some m \<and> all_connected (check_one pg s) = Some (n = m) \<and>
      outcome (check_one pg s) = Some (n, m)"
    then show ?thesis using Cons by (auto simp add: map_filter_simps disconnected_site_def)
  qed
qed

lemma map_filter_empty_conv: "(List.map_filter f xs = []) = (\<forall>x \<in> set xs. f x = None)"
  by (induction xs) (auto simp: map_filter_simps split: option.splits)

lemma disconnected_site_Some:
  "(disconnected_site r \<noteq> None) = (\<exists>n m. outcome r = Some (n, m) \<and> n \<noteq> m)"
proof (cases "outcome r")
  case None
  then show ?thesis by (simp add: disconnected_site_def)
next
  case (Some p)
  obtain n m where "p = (n, m)" by (cases p)
  with Some show ?thesis by (simp add: disconnected_site_def)
qed

lemma alert_line_text:
  "(\<lambda>(l, n, m). alert_line l n m) =
   (\<lambda>(l, n, m). l @ '': '' @ str_int n @ ''/'' @ str_int m @ '' (disconnected: ''
        @ str_int (m - n) @ '')'')"
  by (simp add: alert_line_def)

lemma int_strip_signed:
  assumes "ds \<noteq> []" "\<forall>c \<in> set ds. is_digit c"
  shows "int_strip (CHR ''-'' # ds) = CHR ''-'' # ds"
proof -
  have m: "\<not> is_int_space CHR ''-''" by (simp add: is_int_space_def code_def)
  obtain xs x where ds: "ds = xs @ [x]" using assms(1) by (cases ds rule: rev_cases) auto
  then have "\<not> is_int_space x" using assms(2) by (simp add: digit_not_special)
  then have "dropWhile is_int_space (rev (CHR ''-'' # ds)) = rev (CHR ''-'' # ds)"
    using ds by simp
  then show ?thesis using m by (simp add: int_strip_def)
qed

lemma py_int_str_int: "py_int (str_int i) = Inr i"
proof (cases "i < 0")
  case False
  then show ?thesis by (simp add: str_int_def py_int_str_nat)
next
  case True
  let ?ds = "str_nat (nat (- i))"
  have ne: "?ds \<noteq> []" by (rule str_nat_nonempty)
  have dg: "\<forall>c \<in> set ?ds. is_digit c" by (rule str_nat_digits)
  have f: "filter is_digit ?ds = ?ds" using dg by (simp add: filter_id_conv)
  have "py_int (CHR ''-'' # ?ds) = Inr (- int_of_digits ?ds)"
    by (simp add: py_int_def int_strip_signed [OF ne dg] Let_def digits_ok_all_digits [OF ne dg] f)
  then show ?thesis using True by (simp add: str_int_def int_of_digits_str_nat)
qed

text \<open>
  Claim C5. For every cycle result of the popup script, \<open>popup_disconnected\<close> emits an
  alert (a popup, or the printed message when the message box fails) if and only if at
  least one site has a success outcome with numerator different from denominator. The
  message consists of one line for each of exactly those sites, in the order of the cycle,
  and the line of a site \<open>l\<close> with the ratio \<open>n/m\<close> is \<open>l: n/m (disconnected: m - n)\<close>,
  with the numbers in decimal, so that \<open>int\<close> reads them back. A result with status
  error has no outcome and hence no line.
\<close>

theorem popup_disconnected_lists_disconnected:
  "popup_disconnected (check_all_sites_once pg sites) box_works =
     (let ds = List.map_filter disconnected_site (check_all_sites_once pg sites);
          ls = map (\<lambda>(l, n, m). l @ '': '' @ str_int n @ ''/'' @ str_int m
                      @ '' (disconnected: '' @ str_int (m - n) @ '')'') ds
      in Inr (if ds = [] then (NoAlert, False)
              else if box_works then (PopupShown (join_lines ls), True)
              else (Printed (''[POPUP]'' @ [CHR 0x0A] @ join_lines ls), False)))
   \<and> ((\<exists>a b. popup_disconnected (check_all_sites_once pg sites) box_works = Inr (a, b) \<and> a \<noteq> NoAlert)
        = (\<exists>r \<in> set (check_all_sites_once pg sites). \<exists>n m. outcome r = Some (n, m) \<and> n \<noteq> m))
   \<and> (\<forall>i. py_int (str_int i) = Inr i)"
proof (intro conjI allI)
  show eq: "popup_disconnected (check_all_sites_once pg sites) box_works =
     (let ds = List.map_filter disconnected_site (check_all_sites_once pg sites);
          ls = map (\<lambda>(l, n, m). l @ '': '' @ str_int n @ ''/'' @ str_int m
                      @ '' (disconnected: '' @ str_int (m - n) @ '')'') ds
      in Inr (if ds = [] then (NoAlert, False)
              else if box_works then (PopupShown (join_lines ls), True)
              else (Printed (''[POPUP]'' @ [CHR 0x0A] @ join_lines ls), False)))"
    unfolding popup_disconnected_def popup_lines_check_all alert_line_text Let_def by simp
  have "(List.map_filter disconnected_site (check_all_sites_once pg sites) \<noteq> [])
      = (\<exists>r \<in> set (check_all_sites_once pg sites). \<exists>n m. outcome r = Some (n, m) \<and> n \<noteq> m)"
    unfolding map_filter_empty_conv using disconnected_site_Some by blast
  then show "(\<exists>a b. popup_disconnected (check_all_sites_once pg sites) box_works = Inr (a, b) \<and> a \<noteq> NoAlert)
        = (\<exists>r \<in> set (check_all_sites_once pg sites). \<exists>n m. outcome r = Some (n, m) \<and> n \<noteq> m)"
    unfolding eq Let_def by auto
  show "py_int (str_int i) = Inr i" for i by (rule py_int_str_int)
qed

lemma demo_results: "check_all_sites_once demo_page demo_sites = [\<lparr>site = ''Warburg3'', ratio = Some ''99/66'', status = Success, error = None,
    current = Some 99, total = Some 66, all_connected = Some False\<rparr>,
  \<lparr>site = ''Alpha'', ratio = Some ''65/66'', status = Success, error = None,
     current = Some 65, total = Some 66, all_connected = Some False\<rparr>,
  \<lparr>site = ''Beta'', ratio = None, status = Error,
     error = Some TimeoutException, current = None, total = None,
     all_connected = None\<rparr>,
  \<lparr>site = ''Gamma'', ratio = Some ''12/12'', status = Success, error = None,
     current = Some 12, total = Some 12, all_connected = Some True\<rparr>]"
  by code_simp

lemma demo_disconnected:
  "List.map_filter disconnected_site (check_all_sites_once demo_page demo_sites) =
     [(''Warburg3'', 99, 66), (''Alpha'', 65, 66)]"
  unfolding demo_results by code_simp

lemma demo_numbers:
  "str_int 99 = ''99''" "str_int 66 = ''66''" "str_int 65 = ''65''"
  "str_int (- 33) = ''-33''" "str_int 1 = ''1''"
  by code_simp+

theorem popup_disconnected_lists_disconnected_witness:
  "popup_disconnected (check_all_sites_once demo_page demo_sites) True =
     Inr (PopupShown (''Warburg3: 99/66 (disconnected: -33)'' @ [CHR 0x0A] @ ''Alpha: 65/66 (disconnected: 1)''), True)
   \<and> (\<exists>r \<in> set (check_all_sites_once demo_page demo_sites). \<exists>n m. outcome r = Some (n, m) \<and> n \<noteq> m)
   \<and> py_int (str_int (- 33)) = Inr (- 33)"
proof -
  note t = popup_disconnected_lists_disconnected [of demo_page demo_sites True]
  have a: "popup_disconnected (check_all_sites_once demo_page demo_sites) True =
     Inr (PopupShown (''Warburg3: 99/66 (disconnected: -33)'' @ [CHR 0x0A] @ ''Alpha: 65/66 (disconnected: 1)''), True)"
    using t [THEN conjunct1]
    unfolding demo_disconnected Let_def by (simp add: demo_numbers)
  then have "\<exists>a b. popup_disconnected (check_all_sites_once demo_page demo_sites) True = Inr (a, b) \<and> a \<noteq> NoAlert"
    by blast
  then have b: "\<exists>r \<in> set (check_all_sites_once demo_page demo_sites). \<exists>n m. outcome r = Some (n, m) \<and> n \<noteq> m"
    using t [THEN conjunct2, THEN conjunct1] by simp
  have c: "py_int (str_int (- 33)) = Inr (- 33)"
    by (rule t [THEN conjunct2, THEN conjunct2, rule_format])
  from a b c show ?thesis by blast
qed

text \<open>
  Claim C10. The fallback to the pairs that are not sane yields a success whose numerator
  exceeds the denominator: the text \<open>99/66\<close> with expected total 66 gives \<open>99/66\<close>. On
  the concrete page the site Warburg3 is then a success with \<open>all_connected\<close> False, and
  the alert line reports the deficit \<open>66 - 99 = -33\<close>.
\<close>

theorem insane_fallback_negative_deficit:
  "extract_exact_ratio ''99/66'' 66 = Some ''99/66'' \<and>
   check_one demo_page \<lparr>label = ''Warburg3'', expected_total = 66\<rparr> =
     \<lparr>site = ''Warburg3'', ratio = Some ''99/66'', status = Success, error = None,
      current = Some 99, total = Some 66, all_connected = Some False\<rparr> \<and>
   popup_disconnected [check_one demo_page \<lparr>label = ''Warburg3'', expected_total = 66\<rparr>] True =
     Inr (PopupShown ''Warburg3: 99/66 (disconnected: -33)'', True) \<and>
   str_int (66 - 99) = ''-33''"
  by code_simp

subsection \<open>The wait between two cycles\<close>

lemma floor_7_2: "\<lfloor>7 / 2 :: rat\<rfloor> = 3"
  by (rule floor_unique) simp_all

lemma sleep_no_stop:
  "\<forall>u. \<not> stop u \<Longrightarrow> sleep_with_stop stop n t = t + of_nat n"
  by (induction n arbitrary: t) auto




text \<open>
  Claim C6, as stated, says that the wait equals \<open>max(0, interval - cycleElapsed)\<close>. The
  popup script truncates the elapsed time to whole seconds first: after a cycle of 3.5
  seconds with interval 10 it waits 7 seconds, not 6.5. The 02.09 script sleeps the whole
  interval on top of the cycle: after a cycle of 3 seconds it waits 10 seconds, not 7.
\<close>

theorem wait_is_not_exact_counterexample:
  "wait_sec 10 (7 / 2) = 7 \<and> (of_int (wait_sec 10 (7 / 2)) :: rat) \<noteq> max 0 (10 - 7 / 2) \<and>
   cycle_wait_0209 10 3 = Inr 10 \<and> (10 :: rat) \<noteq> max 0 (10 - 3)"
  by (simp add: wait_sec_def py_trunc_def cycle_wait_0209_def floor_7_2)


text \<open>
  Claim C6, amended. In the popup script the wait before the next cycle is
  \<open>max(0, interval - int(elapsed))\<close> whole seconds: it equals
  \<open>max(0, interval - elapsed)\<close> when the cycle took a whole number of seconds, and for
  any non-negative elapsed time it is at least that value and less than one second more.
  Without a STOP file \<open>sleep_with_stop\<close> sleeps exactly that long. In the 02.09 script
  the wait is the interval itself, whatever the cycle took.
\<close>

theorem wait_sec_cadence:
  "wait_sec interval elapsed = max 0 (interval - py_trunc elapsed)
   \<and> wait_sec interval (of_int k) = max 0 (interval - k)
   \<and> (0 \<le> elapsed \<longrightarrow>
        max 0 (of_int interval - elapsed) \<le> of_int (wait_sec interval elapsed) \<and>
        of_int (wait_sec interval elapsed) < max 0 (of_int interval - elapsed) + 1)
   \<and> ((\<forall>u. \<not> stop u) \<longrightarrow>
        sleep_with_stop stop (nat (wait_sec interval elapsed)) t = t + of_int (wait_sec interval elapsed))
   \<and> (0 \<le> interval \<longrightarrow> cycle_wait_0209 interval elapsed = Inr interval)"
proof (intro conjI impI)
  show "wait_sec interval elapsed = max 0 (interval - py_trunc elapsed)"
    by (simp add: wait_sec_def)
  show "wait_sec interval (of_int k) = max 0 (interval - k)"
    by (simp add: wait_sec_def py_trunc_def)
  show "cycle_wait_0209 interval elapsed = Inr interval" if "0 \<le> interval"
    using that by (simp add: cycle_wait_0209_def)
  show "sleep_with_stop stop (nat (wait_sec interval elapsed)) t = t + of_int (wait_sec interval elapsed)"
    if "\<forall>u. \<not> stop u"
  proof -
    have "0 \<le> wait_sec interval elapsed" by (simp add: wait_sec_def)
    then show ?thesis using sleep_no_stop [OF that] by simp
  qed
next
  assume nn: "0 \<le> elapsed"
  then have tr: "py_trunc elapsed = \<lfloor>elapsed\<rfloor>" by (simp add: py_trunc_def)
  have lo: "of_int \<lfloor>elapsed\<rfloor> \<le> elapsed" by simp
  have hi: "elapsed < of_int \<lfloor>elapsed\<rfloor> + 1" by linarith
  have w: "(of_int (wait_sec interval elapsed) :: rat) = max 0 (of_int interval - of_int \<lfloor>elapsed\<rfloor>)"
    by (simp add: wait_sec_def tr max_def)
  show "max 0 (of_int interval - elapsed) \<le> of_int (wait_sec interval elapsed)"
    unfolding w using lo by linarith
  show "of_int (wait_sec interval elapsed) < max 0 (of_int interval - elapsed) + 1"
    unfolding w using hi by linarith
qed

theorem wait_sec_cadence_witness:
  "wait_sec 10 (7 / 2) = 7 \<and> (13 / 2 :: rat) \<le> 7 \<and> (7 :: rat) < 13 / 2 + 1 \<and>
   sleep_with_stop (\<lambda>u. False) (nat (wait_sec 10 (7 / 2))) 4 = 11 \<and>
   cycle_wait_0209 10 (7 / 2) = Inr 10"
proof -
  have a: "wait_sec 10 (7 / 2) = 7" by (simp add: wait_sec_def py_trunc_def floor_7_2)
  show ?thesis
    using wait_sec_cadence [of 10 "7 / 2" 0 "\<lambda>u. False" 4] unfolding a by simp
qed


subsection \<open>The STOP file during the wait\<close>

lemma sleep_with_stop_bound:
  assumes "\<forall>u. stop u = (s0 \<le> u)"
  shows "t1 < s0 + 1 \<Longrightarrow> s0 \<le> t1 + of_nat n \<Longrightarrow>
         s0 \<le> sleep_with_stop stop n t1 \<and> sleep_with_stop stop n t1 < s0 + 1"
proof (induction n arbitrary: t1)
  case 0
  then show ?case by simp
next
  case (Suc k)
  show ?case
  proof (cases "s0 \<le> t1")
    case True
    then show ?thesis using assms Suc.prems by simp
  next
    case False
    then have "t1 + 1 < s0 + 1" by simp
    moreover have "s0 \<le> (t1 + 1) + of_nat k" using Suc.prems by simp
    ultimately show ?thesis using Suc.IH [of "t1 + 1"] assms False by simp
  qed
qed

lemma sleep_with_stop_steps:
  "\<exists>k \<le> n. sleep_with_stop stop n t = t + of_nat k \<and>
      (\<forall>j < k. \<not> stop (t + of_nat j)) \<and> (k < n \<longrightarrow> stop (t + of_nat k))"
proof (induction n arbitrary: t)
  case 0
  show ?case by simp
next
  case (Suc n)
  show ?case
  proof (cases "stop t")
    case True
    then show ?thesis by (intro exI [of _ 0]) simp
  next
    case False
    from Suc [of "t + 1"] obtain k where k: "k \<le> n"
      "sleep_with_stop stop n (t + 1) = t + 1 + of_nat k"
      "\<forall>j < k. \<not> stop (t + 1 + of_nat j)" "k < n \<longrightarrow> stop (t + 1 + of_nat k)"
      by blast
    have "\<forall>j < Suc k. \<not> stop (t + of_nat j)"
    proof (intro allI impI)
      fix j assume "j < Suc k"
      show "\<not> stop (t + of_nat j)"
      proof (cases j)
        case 0
        then show ?thesis using False by simp
      next
        case (Suc j')
        then have "j' < k" using \<open>j < Suc k\<close> by simp
        then have "\<not> stop (t + 1 + of_nat j')" using k(3) by blast
        moreover have "t + of_nat j = t + 1 + of_nat j'" using Suc by simp
        ultimately show ?thesis by metis
      qed
    qed
    moreover have e: "t + of_nat (Suc k) = t + 1 + of_nat k" by simp
    moreover have "Suc k < Suc n \<longrightarrow> stop (t + of_nat (Suc k))"
      unfolding e using k(4) by simp
    moreover have "sleep_with_stop stop (Suc n) t = t + of_nat (Suc k)"
      unfolding e using False k(2) by simp
    ultimately show ?thesis using k(1) by (intro exI [of _ "Suc k"]) simp
  qed
qed


text \<open>
  Claim C7. The wait is a sequence of one-second sleeps with a check of the STOP file
  before each of them and one more check after the last. If the STOP file appears at
  time \<open>s0\<close> during the wait of cycle \<open>i\<close> and stays, the loop of \<open>main_continuous\<close> ends
  by \<open>break\<close> at a time \<open>t2\<close> with \<open>s0 \<le> t2 < s0 + 1\<close>: no sleep starts once the file is
  there, and the rest of the interval is not slept out. Time is the idealised clock of the
  model: a check takes no time and a sleep exactly one second.
\<close>

theorem stop_during_wait:
  assumes marker: "\<forall>u. stop_file ev u = (s0 \<le> u)"
    and before: "t < s0" "t + setup_time ev i + cycle_time ev i \<le> s0"
    and during: "s0 \<le> t + setup_time ev i + cycle_time ev i
                       + of_int (wait_sec (interval_sec ev) (cycle_time ev i))"
  shows "\<exists>t2 k. main_continuous ev i t = Some (Suc i, t2) \<and> s0 \<le> t2 \<and> t2 < s0 + 1 \<and>
              t2 = sleep_with_stop (stop_file ev) (nat (wait_sec (interval_sec ev) (cycle_time ev i)))
                     (t + setup_time ev i + cycle_time ev i) \<and>
              t2 = t + setup_time ev i + cycle_time ev i + of_nat k \<and>
              (\<forall>j < k. \<not> stop_file ev (t + setup_time ev i + cycle_time ev i + of_nat j))"
proof -
  let ?t1 = "t + setup_time ev i + cycle_time ev i"
  let ?n = "nat (wait_sec (interval_sec ev) (cycle_time ev i))"
  let ?t2 = "sleep_with_stop (stop_file ev) ?n ?t1"
  have w: "0 \<le> wait_sec (interval_sec ev) (cycle_time ev i)" by (simp add: wait_sec_def)
  have "s0 \<le> ?t1 + of_nat ?n" using during w by simp
  moreover have "?t1 < s0 + 1" using before by simp
  ultimately have b: "s0 \<le> ?t2 \<and> ?t2 < s0 + 1"
    using sleep_with_stop_bound [OF marker] by blast
  then have st: "stop_file ev ?t2" using marker by simp
  have nst: "\<not> stop_file ev t" using marker before by simp
  have "main_continuous ev i t = Some (Suc i, ?t2)"
    by (subst main_continuous.simps) (simp add: nst st Let_def)
  moreover obtain k where "?t2 = ?t1 + of_nat k" "\<forall>j < k. \<not> stop_file ev (?t1 + of_nat j)"
    using sleep_with_stop_steps [of ?n "stop_file ev" ?t1] by blast
  ultimately show ?thesis using b by blast
qed

theorem stop_during_wait_witness:
  "\<exists>t2 k. main_continuous demo_env 0 0 = Some (Suc 0, t2) \<and> 13 / 2 \<le> t2 \<and> t2 < 13 / 2 + 1 \<and> t2 = 7"
proof -
  have w: "wait_sec 10 3 = 7" by (simp add: wait_sec_def py_trunc_def)
  have n: "sleep_with_stop (\<lambda>u. 13 \<le> u * 2) 7 4 = (7 :: rat)" by (simp add: eval_nat_numeral)
  have "\<exists>t2 k. main_continuous demo_env 0 0 = Some (Suc 0, t2) \<and> 13 / 2 \<le> t2 \<and> t2 < 13 / 2 + 1 \<and>
      t2 = sleep_with_stop (stop_file demo_env) (nat (wait_sec (interval_sec demo_env) (cycle_time demo_env 0)))
             (0 + setup_time demo_env 0 + cycle_time demo_env 0) \<and>
      t2 = 0 + setup_time demo_env 0 + cycle_time demo_env 0 + of_nat k \<and>
      (\<forall>j < k. \<not> stop_file demo_env (0 + setup_time demo_env 0 + cycle_time demo_env 0 + of_nat j))"
    by (rule stop_during_wait) (simp_all add: demo_env_def w)
  then obtain t2 :: rat and k :: nat where "main_continuous demo_env 0 0 = Some (Suc 0, t2)"
      "13 / 2 \<le> t2" "t2 < 13 / 2 + 1"
      "t2 = sleep_with_stop (stop_file demo_env) (nat (wait_sec (interval_sec demo_env) (cycle_time demo_env 0)))
             (0 + setup_time demo_env 0 + cycle_time demo_env 0)"
    by blast
  moreover from this(4) have "t2 = 7" by (simp add: demo_env_def w n)
  ultimately show ?thesis by blast
qed

subsection \<open>The climb to the card\<close>

lemma climb_found:
  "find (\<lambda>a. card_sized (rect_of pg a)) (ancestors pg k el) = Some a \<Longrightarrow> climb pg k el = Inr (Some a)"
proof (induction k arbitrary: el)
  case 0
  then show ?case by simp
next
  case (Suc k)
  then show ?case by (cases "parent_of pg el") (auto split: if_splits)
qed

lemma climb_exhausted:
  "length (ancestors pg k el) = k \<Longrightarrow>
   find (\<lambda>a. card_sized (rect_of pg a)) (ancestors pg k el) = None \<Longrightarrow> climb pg k el = Inr None"
proof (induction k arbitrary: el)
  case 0
  then show ?case by simp
next
  case (Suc k)
  then show ?case by (cases "parent_of pg el") (auto split: if_splits)
qed

lemma climb_result:
  "climb pg k el = Inr (Some a) \<Longrightarrow>
     a \<in> set (ancestors pg k el) \<and> card_sized (rect_of pg a) \<and>
     find (\<lambda>a. card_sized (rect_of pg a)) (ancestors pg k el) = Some a"
proof (induction k arbitrary: el)
  case 0
  then show ?case by simp
next
  case (Suc k)
  then show ?case by (cases "parent_of pg el") (auto split: if_splits)
qed

lemma climb_fails:
  "climb pg k el = Inl e \<Longrightarrow>
     e = NoSuchElementException \<and> length (ancestors pg k el) < k \<and>
     find (\<lambda>a. card_sized (rect_of pg a)) (ancestors pg k el) = None"
proof (induction k arbitrary: el)
  case 0
  then show ?case by simp
next
  case (Suc k)
  then show ?case by (cases "parent_of pg el") (auto split: if_splits)
qed

lemma ancestors_hd: "0 < k \<Longrightarrow> parent_of pg el = Some p \<Longrightarrow> hd (ancestors pg k el) = p \<and> p \<in> set (ancestors pg k el)"
  by (cases k) auto

lemma length_ancestors: "length (ancestors pg k el) \<le> k"
proof (induction k arbitrary: el)
  case 0 show ?case by simp
next
  case (Suc k)
  then show ?case by (cases "parent_of pg el") auto
qed


text \<open>
  Claim C8, as stated, says that the step never fails and never reaches the document
  root. On a short document, where neither the body nor the root is higher than 140, the
  climb runs out of ancestors after two hops and \<open>find_element\<close> raises
  NoSuchElementException, in the popup script (10 hops) as in the single-pass script
  (8 hops), and the site check ends with that exception. On a document where only the
  root is large enough, the root itself is selected as the card.
\<close>

theorem climb_fails_or_reaches_root_counterexample:
  "locate_card short_page 10 1 = Inl NoSuchElementException \<and>
   check_site_batteries short_page ''Solo'' 66 = Inl NoSuchElementException \<and>
   locate_card short_page 8 1 = Inl NoSuchElementException \<and>
   locate_card root_page 10 1 = Inr 3 \<and> parent_of root_page 3 = None"
  by code_simp


text \<open>
  Claim C8, amended. Locating the card climbs the ancestor chain of the label element for
  at most a fixed number of hops (10 in the popup script, 8 in the single-pass script) and
  selects the first ancestor whose rectangle is wider than 220 and higher than 140. When
  the label element has that many ancestors and none of them qualifies, the card is the
  immediate parent of the label element. A card that is found is always one of the first
  \<open>hops\<close> ancestors; it may be the document root.
\<close>

theorem locate_card_climb:
  "(\<forall>a. find (\<lambda>a. card_sized (rect_of pg a)) (ancestors pg hops title) = Some a \<longrightarrow>
        locate_card pg hops title = Inr a)
   \<and> (\<forall>p. length (ancestors pg hops title) = hops \<and>
          find (\<lambda>a. card_sized (rect_of pg a)) (ancestors pg hops title) = None \<and>
          parent_of pg title = Some p \<longrightarrow> locate_card pg hops title = Inr p)
   \<and> (\<forall>c. 0 < hops \<and> locate_card pg hops title = Inr c \<longrightarrow>
          c \<in> set (ancestors pg hops title) \<and> length (ancestors pg hops title) \<le> hops)"
proof (intro conjI allI impI)
  fix a assume "find (\<lambda>a. card_sized (rect_of pg a)) (ancestors pg hops title) = Some a"
  then show "locate_card pg hops title = Inr a"
    by (simp add: locate_card_def climb_found)
next
  fix p assume "length (ancestors pg hops title) = hops \<and>
          find (\<lambda>a. card_sized (rect_of pg a)) (ancestors pg hops title) = None \<and>
          parent_of pg title = Some p"
  then show "locate_card pg hops title = Inr p"
    by (simp add: locate_card_def climb_exhausted)
next
  fix c assume a: "0 < hops \<and> locate_card pg hops title = Inr c"
  show "c \<in> set (ancestors pg hops title)"
  proof (cases "climb pg hops title")
    case (Inl e)
    then show ?thesis using a by (simp add: locate_card_def)
  next
    case (Inr found)
    show ?thesis
    proof (cases found)
      case None
      then show ?thesis using a Inr ancestors_hd [of hops pg title]
        by (auto simp: locate_card_def split: option.splits)
    next
      case (Some b)
      then show ?thesis using a Inr climb_result [of pg hops title b]
        by (simp add: locate_card_def)
    qed
  qed
  show "length (ancestors pg hops title) \<le> hops" by (rule length_ancestors)
qed

lemma demo_anc: "ancestors demo_page 10 1 = [11, 12, 90, 91]" by code_simp
lemma demo_find: "find (\<lambda>a. card_sized (rect_of demo_page a)) [11, 12, 90, 91] = Some 12" by code_simp
lemma short_anc: "ancestors short_page 2 1 = [2, 3]" by code_simp
lemma short_find: "find (\<lambda>a. card_sized (rect_of short_page a)) [2, 3] = None" by code_simp
lemma short_parent: "parent_of short_page 1 = Some 2" by code_simp

theorem locate_card_climb_witness:
  "find (\<lambda>a. card_sized (rect_of demo_page a)) (ancestors demo_page 10 1) = Some 12 \<and>
   locate_card demo_page 10 1 = Inr 12 \<and> 12 \<in> set (ancestors demo_page 10 1) \<and>
   length (ancestors demo_page 10 1) \<le> 10 \<and>
   length (ancestors short_page 2 1) = 2 \<and>
   find (\<lambda>a. card_sized (rect_of short_page a)) (ancestors short_page 2 1) = None \<and>
   parent_of short_page 1 = Some 2 \<and> locate_card short_page 2 1 = Inr 2"
proof -
  have f: "find (\<lambda>a. card_sized (rect_of demo_page a)) (ancestors demo_page 10 1) = Some 12"
    by (simp only: demo_anc demo_find)
  have l: "locate_card demo_page 10 1 = Inr 12"
    using locate_card_climb [of demo_page 10 1] f by blast
  have m: "12 \<in> set (ancestors demo_page 10 1) \<and> length (ancestors demo_page 10 1) \<le> 10"
    using locate_card_climb [of demo_page 10 1] l by simp
  have g: "length (ancestors short_page 2 1) = 2 \<and>
      find (\<lambda>a. card_sized (rect_of short_page a)) (ancestors short_page 2 1) = None \<and>
      parent_of short_page 1 = Some 2"
    unfolding short_anc short_find short_parent by simp
  then have "locate_card short_page 2 1 = Inr 2"
    using locate_card_climb [of short_page 2 1] by blast
  with f l m g show ?thesis by simp
qed

subsection \<open>The denominator of a reported ratio\<close>

lemma extract_exact_ratio_exact:
  "extract_exact_ratio t e = Some r \<Longrightarrow> exact_ratio e r"
  using extract_exact_ratio_Some [of t e r] ratio_pairs_nonneg [of _ e t]
  unfolding exact_ratio_def by blast

lemma first_descendant_ratio_exact:
  "first_descendant_ratio pg e els = Some r \<Longrightarrow> exact_ratio e r"
proof (induction els)
  case Nil
  then show ?case by simp
next
  case (Cons el els)
  then show ?case
    by (auto simp: Let_def split: sum.splits if_splits option.splits
             dest: extract_exact_ratio_exact)
qed

lemma first_ratio_stripped_exact:
  "first_ratio_stripped pg e els = Inr (Some r) \<Longrightarrow> exact_ratio e r"
proof (induction els)
  case Nil
  then show ?case by simp
next
  case (Cons el els)
  then show ?case
    by (auto simp: Let_def split: sum.splits if_splits option.splits
             dest: extract_exact_ratio_exact)
qed

lemma first_ratio_doc_exact:
  "first_ratio_doc pg e els = Inr (Some r) \<Longrightarrow> exact_ratio e r"
proof (induction els)
  case Nil
  then show ?case by simp
next
  case (Cons el els)
  then show ?case
    by (auto split: sum.splits option.splits dest: extract_exact_ratio_exact)
qed

lemma first_ratio_raw_exact:
  "first_ratio_raw pg e els = Inr (Some r) \<Longrightarrow> exact_ratio e r"
proof (induction els)
  case Nil
  then show ?case by simp
next
  case (Cons el els)
  then show ?case
    by (auto split: sum.splits option.splits dest: extract_exact_ratio_exact)
qed

lemma partial_divs_exact:
  "partial_divs pg l e divs = Some r \<Longrightarrow> exact_ratio e r"
proof (induction divs)
  case Nil
  then show ?case by simp
next
  case (Cons dv divs)
  then show ?case
    by (auto simp: Let_def split: sum.splits if_splits option.splits
             dest: extract_exact_ratio_exact first_ratio_raw_exact)
qed

lemma check_site_batteries_exact:
  assumes "check_site_batteries pg l e = Inr r"
  shows "exact_ratio e r"
proof -
  from assms obtain st where "check_site_batteries_staged pg l e = Inr (st, r)"
    by (cases "check_site_batteries_staged pg l e") (auto simp: check_site_batteries_def)
  then show ?thesis
    by (auto simp: check_site_batteries_staged_def split: option.splits sum.splits
             dest: extract_exact_ratio_exact first_descendant_ratio_exact)
qed

lemma main_attempt_0209_exact:
  "main_attempt_0209 pg l e = Inr (st, r) \<Longrightarrow> exact_ratio e r"
  by (auto simp: main_attempt_0209_def Let_def split: option.splits sum.splits
           dest: extract_exact_ratio_exact first_ratio_stripped_exact first_ratio_doc_exact)

lemma check_site_batteries_0209_exact:
  assumes "check_site_batteries_0209 pg l e = Inr r"
  shows "exact_ratio e r"
proof -
  from assms obtain st where "check_site_batteries_0209_staged pg l e = Inr (st, r)"
    by (cases "check_site_batteries_0209_staged pg l e") (auto simp: check_site_batteries_0209_def)
  then show ?thesis
    by (auto simp: check_site_batteries_0209_staged_def split: option.splits sum.splits if_splits
             dest: main_attempt_0209_exact partial_divs_exact)
qed

lemma exact_ratio_parse:
  assumes "exact_ratio e r"
  shows "\<exists>n. 0 \<le> n \<and> r = fmt_ratio n e \<and> parse_nm r = Inr (n, e) \<and> CHR ''/'' \<in> set r"
proof -
  from assms obtain n where n: "0 \<le> n" "0 \<le> e" "r = fmt_ratio n e"
    unfolding exact_ratio_def by blast
  then have "parse_nm r = Inr (n, e)" by (simp add: parse_nm_fmt_ratio)
  moreover have "CHR ''/'' \<in> set r" using n by (simp add: fmt_ratio_def)
  ultimately show ?thesis using n by blast
qed

lemma check_one_success:
  assumes "status (check_one pg s) = Success"
  shows "\<exists>n. 0 \<le> n \<and> outcome (check_one pg s) = Some (n, expected_total s) \<and>
             ratio (check_one pg s) = Some (fmt_ratio n (expected_total s))"
proof (cases "check_site_batteries pg (label s) (expected_total s)")
  case (Inl e)
  then show ?thesis using assms by (simp add: check_one_def error_result_def)
next
  case (Inr r)
  from exact_ratio_parse [OF check_site_batteries_exact [OF Inr]]
  obtain n where "0 \<le> n" "r = fmt_ratio n (expected_total s)"
    "parse_nm r = Inr (n, expected_total s)" by blast
  then show ?thesis using Inr by (auto simp: check_one_def outcome_def)
qed

lemma check_one_plain_success:
  assumes "status (check_one_plain s (check_site_batteries_0209 pg (label s) (expected_total s))) = Success"
  shows "\<exists>n. 0 \<le> n \<and>
     outcome (check_one_plain s (check_site_batteries_0209 pg (label s) (expected_total s)))
       = Some (n, expected_total s) \<and>
     ratio (check_one_plain s (check_site_batteries_0209 pg (label s) (expected_total s)))
       = Some (fmt_ratio n (expected_total s))"
proof (cases "check_site_batteries_0209 pg (label s) (expected_total s)")
  case (Inl e)
  then show ?thesis using assms by (simp add: check_one_plain_def error_result_def)
next
  case (Inr r)
  from exact_ratio_parse [OF check_site_batteries_0209_exact [OF Inr]]
  obtain n where "0 \<le> n" "r = fmt_ratio n (expected_total s)"
    "parse_nm r = Inr (n, expected_total s)" "CHR ''/'' \<in> set r" by blast
  then show ?thesis using Inr by (auto simp: check_one_plain_def outcome_def)
qed

lemma check_all_nth:
  "i < length sites \<Longrightarrow> check_all_sites_once pg sites ! i = check_one pg (sites ! i)"
  by (simp add: check_all_map)

lemma check_all_0209_map:
  "check_all_sites_once_0209 pg sites =
     map (\<lambda>s. check_one_plain s (check_site_batteries_0209 pg (label s) (expected_total s))) sites"
  by (induction sites) auto

lemma check_all_0209_nth:
  "i < length sites \<Longrightarrow>
   check_all_sites_once_0209 pg sites ! i =
     check_one_plain (sites ! i)
       (check_site_batteries_0209 pg (label (sites ! i)) (expected_total (sites ! i)))"
  by (simp add: check_all_0209_map)

lemma outcome_status: "outcome r = Some p \<Longrightarrow> status r = Success"
  by (cases "status r") (auto simp: outcome_def)


text \<open>
  Claim C2, as stated, speaks of every site check. The legacy \<open>check_site_batteries\<close>
  (04.09 file, lines 499-549) takes the first element of the document whose text contains
  \<open>/66\<close> and the first \<open>\d+/\d+\<close> in it: on the concrete page the site Alpha, expected
  total 66, is a success with the ratio 65/667. \<open>get_nm_for_site\<close> of the single-pass
  script only prefers a text that contains \<open>/66\<close> and returns the same 65/667.
\<close>

theorem other_denominator_counterexample:
  "status (check_all_sites_once_legacy demo_page demo_sites ! 1) = Success \<and>
   outcome (check_all_sites_once_legacy demo_page demo_sites ! 1) = Some (65, 667) \<and>
   label (demo_sites ! 1) = ''Alpha'' \<and> expected_total (demo_sites ! 1) = 66 \<and>
   get_nm_for_site demo_page ''Alpha'' 66 20 = Inr (65, 667, ''65/667'')"
  by code_simp


text \<open>
  Claim C2, amended. In the scripts that extract with \<open>_extract_exact_ratio\<close>, the
  popup script and the 02.09 script, every result of a cycle with status success carries
  a ratio whose denominator equals the expected total of its site, and no result carries
  a ratio with another denominator. The legacy script and the single-pass script only
  prefer the expected denominator.
\<close>

theorem strict_success_has_expected_denominator:
  "(\<forall>i. i < length sites \<and> status (check_all_sites_once pg sites ! i) = Success \<longrightarrow>
      (\<exists>n. 0 \<le> n \<and> outcome (check_all_sites_once pg sites ! i) = Some (n, expected_total (sites ! i)) \<and>
           ratio (check_all_sites_once pg sites ! i) = Some (fmt_ratio n (expected_total (sites ! i)))))
   \<and> (\<forall>i. i < length sites \<and> status (check_all_sites_once_0209 pg sites ! i) = Success \<longrightarrow>
      (\<exists>n. 0 \<le> n \<and> outcome (check_all_sites_once_0209 pg sites ! i) = Some (n, expected_total (sites ! i)) \<and>
           ratio (check_all_sites_once_0209 pg sites ! i) = Some (fmt_ratio n (expected_total (sites ! i)))))
   \<and> (\<forall>i n m. i < length sites \<and> outcome (check_all_sites_once pg sites ! i) = Some (n, m) \<longrightarrow>
          m = expected_total (sites ! i))
   \<and> (\<forall>i n m. i < length sites \<and> outcome (check_all_sites_once_0209 pg sites ! i) = Some (n, m) \<longrightarrow>
          m = expected_total (sites ! i))"
proof (intro conjI allI impI)
  fix i assume a: "i < length sites \<and> status (check_all_sites_once pg sites ! i) = Success"
  then show "\<exists>n. 0 \<le> n \<and> outcome (check_all_sites_once pg sites ! i) = Some (n, expected_total (sites ! i)) \<and>
           ratio (check_all_sites_once pg sites ! i) = Some (fmt_ratio n (expected_total (sites ! i)))"
  proof -
    from a have i: "i < length sites" by simp
    from a have "status (check_one pg (sites ! i)) = Success" by (simp add: check_all_nth [OF i])
    then show ?thesis using check_one_success [of pg "sites ! i"] by (simp add: check_all_nth [OF i])
  qed
next
  fix i assume a: "i < length sites \<and> status (check_all_sites_once_0209 pg sites ! i) = Success"
  then show "\<exists>n. 0 \<le> n \<and> outcome (check_all_sites_once_0209 pg sites ! i) = Some (n, expected_total (sites ! i)) \<and>
           ratio (check_all_sites_once_0209 pg sites ! i) = Some (fmt_ratio n (expected_total (sites ! i)))"
  proof -
    from a have i: "i < length sites" by simp
    from a have "status (check_one_plain (sites ! i)
        (check_site_batteries_0209 pg (label (sites ! i)) (expected_total (sites ! i)))) = Success"
      by (simp add: check_all_0209_nth [OF i])
    then show ?thesis using check_one_plain_success [of "sites ! i" pg]
      by (simp add: check_all_0209_nth [OF i])
  qed
next
  fix i n m assume a: "i < length sites \<and> outcome (check_all_sites_once pg sites ! i) = Some (n, m)"
  then have i: "i < length sites" by simp
  from a have o: "outcome (check_one pg (sites ! i)) = Some (n, m)"
    by (simp add: check_all_nth [OF i])
  from o have "status (check_one pg (sites ! i)) = Success" by (rule outcome_status)
  then show "m = expected_total (sites ! i)"
    using check_one_success [of pg "sites ! i"] o by auto
next
  fix i n m assume a: "i < length sites \<and> outcome (check_all_sites_once_0209 pg sites ! i) = Some (n, m)"
  then have i: "i < length sites" by simp
  from a have o: "outcome (check_one_plain (sites ! i)
        (check_site_batteries_0209 pg (label (sites ! i)) (expected_total (sites ! i)))) = Some (n, m)"
    by (simp add: check_all_0209_nth [OF i])
  from o have "status (check_one_plain (sites ! i)
        (check_site_batteries_0209 pg (label (sites ! i)) (expected_total (sites ! i)))) = Success"
    by (rule outcome_status)
  then show "m = expected_total (sites ! i)"
    using check_one_plain_success [of "sites ! i" pg] o by auto
qed

lemma demo_results_0209:
  "check_all_sites_once_0209 demo_page demo_sites =
   [\<lparr>site = ''Warburg3'', ratio = Some ''99/66'', status = Success,
     error = None, current = Some 99, total = Some 66,
     all_connected = Some False\<rparr>,
  \<lparr>site = ''Alpha'', ratio = Some ''65/66'', status = Success, error = None,
     current = Some 65, total = Some 66, all_connected = Some False\<rparr>,
  \<lparr>site = ''Beta'', ratio = None, status = Error,
     error = Some TimeoutException, current = None, total = None,
     all_connected = None\<rparr>,
  \<lparr>site = ''Gamma'', ratio = None, status = Error,
     error = Some StaleElementReferenceException, current = None,
     total = None, all_connected = None\<rparr>]"
  by code_simp

lemma demo_sites_1: "demo_sites ! 1 = \<lparr>label = ''Alpha'', expected_total = 66\<rparr>" "length demo_sites = 4"
  by (simp_all add: demo_sites_def)

theorem strict_success_has_expected_denominator_witness:
  "(1::nat) < length demo_sites \<and> status (check_all_sites_once demo_page demo_sites ! 1) = Success \<and>
   status (check_all_sites_once_0209 demo_page demo_sites ! 1) = Success \<and>
   outcome (check_all_sites_once demo_page demo_sites ! 1) = Some (65, 66) \<and>
   outcome (check_all_sites_once_0209 demo_page demo_sites ! 1) = Some (65, 66) \<and>
   expected_total (demo_sites ! 1) = 66"
proof -
  have a: "(1::nat) < length demo_sites" by (simp add: demo_sites_1)
  have b: "status (check_all_sites_once demo_page demo_sites ! 1) = Success"
    unfolding demo_results by simp
  have c: "status (check_all_sites_once_0209 demo_page demo_sites ! 1) = Success"
    unfolding demo_results_0209 by simp
  have d: "outcome (check_all_sites_once demo_page demo_sites ! 1) = Some (65, 66)"
    unfolding demo_results by (simp add: outcome_def)
  have e: "outcome (check_all_sites_once_0209 demo_page demo_sites ! 1) = Some (65, 66)"
    unfolding demo_results_0209 by (simp add: outcome_def)
  have "66 = expected_total (demo_sites ! 1)"
    using strict_success_has_expected_denominator [of demo_sites demo_page] a d by blast
  moreover have "\<exists>n. 0 \<le> n \<and> outcome (check_all_sites_once_0209 demo_page demo_sites ! 1) = Some (n, expected_total (demo_sites ! 1))"
    using strict_success_has_expected_denominator [of demo_sites demo_page] a c by blast
  ultimately show ?thesis using a b c d e by simp
qed

subsection \<open>One result per site\<close>

lemma check_all_append:
  "check_all_sites_once pg (xs @ ys) = check_all_sites_once pg xs @ check_all_sites_once pg ys"
  by (simp add: check_all_map)

lemma check_all_0209_append:
  "check_all_sites_once_0209 pg (xs @ ys) = check_all_sites_once_0209 pg xs @ check_all_sites_once_0209 pg ys"
  by (simp add: check_all_0209_map)

lemma check_one_plain_site: "site (check_one_plain s c) = label s"
  by (auto simp: check_one_plain_def error_result_def split: sum.splits)

lemma check_one_error:
  "(status (check_one pg s) = Error) = (\<exists>e. check_site_batteries pg (label s) (expected_total s) = Inl e)"
proof (cases "check_site_batteries pg (label s) (expected_total s)")
  case (Inl e)
  then show ?thesis by (simp add: check_one_def error_result_def)
next
  case (Inr r)
  from exact_ratio_parse [OF check_site_batteries_exact [OF Inr]]
  obtain n where "parse_nm r = Inr (n, expected_total s)" by blast
  then show ?thesis using Inr by (simp add: check_one_def)
qed

lemma check_one_plain_error:
  "(status (check_one_plain s (check_site_batteries_0209 pg (label s) (expected_total s))) = Error)
     = (\<exists>e. check_site_batteries_0209 pg (label s) (expected_total s) = Inl e)"
proof (cases "check_site_batteries_0209 pg (label s) (expected_total s)")
  case (Inl e)
  then show ?thesis by (simp add: check_one_plain_def error_result_def)
next
  case (Inr r)
  from exact_ratio_parse [OF check_site_batteries_0209_exact [OF Inr]]
  obtain n where "parse_nm r = Inr (n, expected_total s)" "CHR ''/'' \<in> set r" by blast
  then show ?thesis using Inr by (simp add: check_one_plain_def)
qed


text \<open>
  Claim C3. For every ordered list of sites, one cycle yields exactly one result per site,
  in the order of the list, in the popup script as in the 02.09 script. An exception of
  the check of a site \<open>s\<close> becomes the error result of \<open>s\<close>, a result has status error
  only in that case, and the results of the sites before and after \<open>s\<close> are those of
  checking them without \<open>s\<close>: the cycle goes on behind a failure.
\<close>

theorem check_all_sites_once_isolates_failures:
  "length (check_all_sites_once pg sites) = length sites
   \<and> map site (check_all_sites_once pg sites) = map label sites
   \<and> check_all_sites_once pg (before @ s # after) =
       check_all_sites_once pg before @ check_one pg s # check_all_sites_once pg after
   \<and> (\<forall>e. check_site_batteries pg (label s) (expected_total s) = Inl e \<longrightarrow>
         check_one pg s = error_result (label s) e \<and> status (check_one pg s) = Error)
   \<and> (status (check_one pg s) = Error) = (\<exists>e. check_site_batteries pg (label s) (expected_total s) = Inl e)
   \<and> length (check_all_sites_once_0209 pg sites) = length sites
   \<and> map site (check_all_sites_once_0209 pg sites) = map label sites
   \<and> check_all_sites_once_0209 pg (before @ s # after) =
       check_all_sites_once_0209 pg before
         @ check_one_plain s (check_site_batteries_0209 pg (label s) (expected_total s))
         # check_all_sites_once_0209 pg after
   \<and> (\<forall>e. check_site_batteries_0209 pg (label s) (expected_total s) = Inl e \<longrightarrow>
         check_one_plain s (check_site_batteries_0209 pg (label s) (expected_total s)) = error_result (label s) e)
   \<and> (status (check_one_plain s (check_site_batteries_0209 pg (label s) (expected_total s))) = Error)
       = (\<exists>e. check_site_batteries_0209 pg (label s) (expected_total s) = Inl e)"
proof (intro conjI allI impI)
  show "length (check_all_sites_once pg sites) = length sites" by (simp add: check_all_map)
  show "map site (check_all_sites_once pg sites) = map label sites"
    by (simp add: check_all_map check_one_site)
  show "check_all_sites_once pg (before @ s # after) =
       check_all_sites_once pg before @ check_one pg s # check_all_sites_once pg after"
    by (simp add: check_all_append)
  show "(status (check_one pg s) = Error) = (\<exists>e. check_site_batteries pg (label s) (expected_total s) = Inl e)"
    by (rule check_one_error)
  show "length (check_all_sites_once_0209 pg sites) = length sites" by (simp add: check_all_0209_map)
  show "map site (check_all_sites_once_0209 pg sites) = map label sites"
    by (simp add: check_all_0209_map check_one_plain_site)
  show "check_all_sites_once_0209 pg (before @ s # after) =
       check_all_sites_once_0209 pg before
         @ check_one_plain s (check_site_batteries_0209 pg (label s) (expected_total s))
         # check_all_sites_once_0209 pg after"
    by (simp add: check_all_0209_append)
  show "(status (check_one_plain s (check_site_batteries_0209 pg (label s) (expected_total s))) = Error)
       = (\<exists>e. check_site_batteries_0209 pg (label s) (expected_total s) = Inl e)"
    by (rule check_one_plain_error)
next
  fix e assume "check_site_batteries pg (label s) (expected_total s) = Inl e"
  then show "check_one pg s = error_result (label s) e" "status (check_one pg s) = Error"
    by (simp_all add: check_one_def error_result_def)
next
  fix e assume "check_site_batteries_0209 pg (label s) (expected_total s) = Inl e"
  then show "check_one_plain s (check_site_batteries_0209 pg (label s) (expected_total s)) = error_result (label s) e"
    by (simp add: check_one_plain_def)
qed

lemma demo_split:
  "demo_sites = [\<lparr>label = ''Warburg3'', expected_total = 66\<rparr>, \<lparr>label = ''Alpha'', expected_total = 66\<rparr>]
       @ \<lparr>label = ''Beta'', expected_total = 40\<rparr> # [\<lparr>label = ''Gamma'', expected_total = 12\<rparr>]"
  by (simp add: demo_sites_def)

lemma demo_beta: "check_site_batteries demo_page ''Beta'' 40 = Inl TimeoutException"
  by code_simp

lemma demo_beta_0209: "check_site_batteries_0209 demo_page ''Beta'' 40 = Inl TimeoutException"
  by code_simp

lemma demo_gamma: "check_all_sites_once demo_page [\<lparr>label = ''Gamma'', expected_total = 12\<rparr>] =
   [\<lparr>site = ''Gamma'', ratio = Some ''12/12'', status = Success, error = None,
     current = Some 12, total = Some 12, all_connected = Some True\<rparr>]"
  by code_simp

theorem check_all_sites_once_isolates_failures_witness:
  "check_site_batteries demo_page ''Beta'' 40 = Inl TimeoutException \<and>
   check_site_batteries_0209 demo_page ''Beta'' 40 = Inl TimeoutException \<and>
   length (check_all_sites_once demo_page demo_sites) = 4 \<and>
   map site (check_all_sites_once demo_page demo_sites) = [''Warburg3'', ''Alpha'', ''Beta'', ''Gamma''] \<and>
   check_all_sites_once demo_page demo_sites =
     check_all_sites_once demo_page [\<lparr>label = ''Warburg3'', expected_total = 66\<rparr>, \<lparr>label = ''Alpha'', expected_total = 66\<rparr>]
     @ error_result ''Beta'' TimeoutException
     # [\<lparr>site = ''Gamma'', ratio = Some ''12/12'', status = Success, error = None,
         current = Some 12, total = Some 12, all_connected = Some True\<rparr>] \<and>
   check_one_plain \<lparr>label = ''Beta'', expected_total = 40\<rparr>
     (check_site_batteries_0209 demo_page ''Beta'' 40) = error_result ''Beta'' TimeoutException"
proof -
  let ?b = "\<lparr>label = ''Beta'', expected_total = 40\<rparr>"
  let ?pre = "[\<lparr>label = ''Warburg3'', expected_total = 66\<rparr>, \<lparr>label = ''Alpha'', expected_total = 66\<rparr>]"
  let ?post = "[\<lparr>label = ''Gamma'', expected_total = 12\<rparr>]"
  note t = check_all_sites_once_isolates_failures [of demo_page demo_sites ?pre ?b ?post]
  have a: "check_one demo_page ?b = error_result ''Beta'' TimeoutException"
    using t demo_beta by simp
  have b: "check_one_plain ?b (check_site_batteries_0209 demo_page ''Beta'' 40) = error_result ''Beta'' TimeoutException"
    using t demo_beta_0209 by simp
  have c: "length (check_all_sites_once demo_page demo_sites) = 4"
    using t by (simp add: demo_sites_def)
  have d: "map site (check_all_sites_once demo_page demo_sites) = [''Warburg3'', ''Alpha'', ''Beta'', ''Gamma'']"
    using t by (simp add: demo_sites_def)
  have e: "check_all_sites_once demo_page demo_sites =
     check_all_sites_once demo_page ?pre @ error_result ''Beta'' TimeoutException
       # check_all_sites_once demo_page ?post"
    using t a unfolding demo_split [symmetric] by simp
  show ?thesis using a b c d e demo_beta demo_beta_0209 unfolding demo_gamma by simp
qed

subsection \<open>The order of the attempts\<close>

lemma staged_popup_order:
  assumes "check_site_batteries_staged pg l e = Inr (st, r)"
  shows "\<exists>title c txt. find_exact pg l = Some title \<and> locate_card pg 10 title = Inr c \<and>
           read_text pg c = Inr txt \<and>
           ((st = CardText \<and> extract_exact_ratio txt e = Some r) \<or>
            (st = CardDescendant \<and> extract_exact_ratio txt e = None \<and>
             first_descendant_ratio pg e (slash_descendants pg c) = Some r))"
  using assms
  by (auto simp: check_site_batteries_staged_def split: option.splits sum.splits)

lemma main_attempt_0209_order:
  assumes "main_attempt_0209 pg l e = Inr (st, r)"
  shows "\<exists>site_el c txt. find_ci pg (py_lower l) = Some site_el \<and>
           c = (case class_ancestor_or_div pg site_el of None \<Rightarrow> site_el | Some p \<Rightarrow> p) \<and>
           read_text pg c = Inr txt \<and>
           ((st = CardText \<and> extract_exact_ratio txt e = Some r) \<or>
            (st = CardDescendant \<and> extract_exact_ratio txt e = None \<and>
             first_ratio_stripped pg e (descendants pg c) = Inr (Some r)) \<or>
            (st = DocumentScan \<and> extract_exact_ratio txt e = None \<and>
             first_ratio_stripped pg e (descendants pg c) = Inr None \<and>
             first_ratio_doc pg e (doc_candidates pg e) = Inr (Some r)))"
proof (cases "find_ci pg (py_lower l)")
  case None
  then show ?thesis using assms by (simp add: main_attempt_0209_def)
next
  case (Some site_el)
  define c where "c = (case class_ancestor_or_div pg site_el of None \<Rightarrow> site_el | Some p \<Rightarrow> p)"
  from assms Some have a:
    "(case read_text pg c of
        Inl x \<Rightarrow> Inl x
      | Inr txt \<Rightarrow>
          (case extract_exact_ratio txt e of
             Some r \<Rightarrow> Inr (CardText, r)
           | None \<Rightarrow>
               (case first_ratio_stripped pg e (descendants pg c) of
                  Inl x \<Rightarrow> Inl x
                | Inr found \<Rightarrow>
                    (case found of
                       Some r \<Rightarrow> Inr (CardDescendant, r)
                     | None \<Rightarrow>
                         (case first_ratio_doc pg e (doc_candidates pg e) of
                            Inl x \<Rightarrow> Inl x
                          | Inr found' \<Rightarrow>
                              (case found' of
                                 Some r \<Rightarrow> Inr (DocumentScan, r)
                               | None \<Rightarrow> Inl TimeoutException))))))
     = Inr (st, r)"
    unfolding main_attempt_0209_def Let_def c_def by simp
  then obtain tx where rd: "read_text pg c = Inr tx"
    by (cases "read_text pg c") auto
  from a rd have
    "(st = CardText \<and> extract_exact_ratio tx e = Some r) \<or>
     (st = CardDescendant \<and> extract_exact_ratio tx e = None \<and>
      first_ratio_stripped pg e (descendants pg c) = Inr (Some r)) \<or>
     (st = DocumentScan \<and> extract_exact_ratio tx e = None \<and>
      first_ratio_stripped pg e (descendants pg c) = Inr None \<and>
      first_ratio_doc pg e (doc_candidates pg e) = Inr (Some r))"
    by (auto split: option.splits sum.splits)
  then show ?thesis using Some rd c_def by blast
qed

lemma staged_0209_cases:
  assumes "check_site_batteries_0209_staged pg l e = Inr (st, r)"
  shows "(st = PartialDiv \<and> main_attempt_0209 pg l e = Inl TimeoutException \<and>
          partial_divs pg l e (all_divs pg) = Some r) \<or>
         (st \<noteq> PartialDiv \<and> main_attempt_0209 pg l e = Inr (st, r))"
proof (cases "main_attempt_0209 pg l e")
  case (Inl x)
  then show ?thesis using assms
    by (auto simp: check_site_batteries_0209_staged_def split: if_splits option.splits)
next
  case (Inr v)
  then have v: "v = (st, r)" using assms by (simp add: check_site_batteries_0209_staged_def)
  then have "st \<noteq> PartialDiv" using main_attempt_0209_order [of pg l e st r] Inr by auto
  then show ?thesis using Inr v by simp
qed


text \<open>
  Claim C4, as stated, describes a chain of four attempts: the card of the exact label, its
  slash-containing descendants, a widened locator, a scan of the whole document. No script
  has this chain. The popup script stops after the descendants: for Delta on the concrete
  page it raises TimeoutException although a scan of the document finds a ratio. The
  02.09 script never looks for the exact label: it finds ALPHA, which no element is titled,
  through its case-insensitive locator. And it scans the whole document before its fallback
  over the \<open>div\<close>s that contain the label: for Delta it returns 99/66 from the document
  scan, while the fallback would have found 40/66 in the card of Delta.
\<close>

theorem attempt_order_counterexample:
  "check_site_batteries_staged demo_page ''Delta'' 66 = Inl TimeoutException \<and>
   first_ratio_doc demo_page 66 (doc_candidates demo_page 66) = Inr (Some ''99/66'') \<and>
   find_exact demo_page ''ALPHA'' = None \<and>
   check_site_batteries_0209_staged demo_page ''ALPHA'' 66 = Inr (CardText, ''65/66'') \<and>
   check_site_batteries_0209_staged demo_page ''Delta'' 66 = Inr (DocumentScan, ''99/66'') \<and>
   partial_divs demo_page ''Delta'' 66 (all_divs demo_page) = Some ''40/66''"
  by code_simp


text \<open>
  Claim C4, amended. In the popup script a site check locates the label by its exact text
  and fails with TimeoutException when there is none; a ratio comes from the full text of
  the card, or, only when the card text has no exact ratio, from the first
  slash-containing descendant of that card that has one; there is no widened locator and
  no scan of the document. In the 02.09 script the label is located case-insensitively;
  a ratio comes from the text of the card, else from the first descendant of the card
  that has one, else from the scan of the whole document for elements containing
  \<open>/expected_total\<close>, each only when the attempts before it found nothing; the fallback
  over the \<open>div\<close>s that contain the label runs only after a TimeoutException of these
  attempts.
\<close>

theorem attempts_in_order:
  "(find_exact pg l = None \<longrightarrow> check_site_batteries_staged pg l e = Inl TimeoutException)
   \<and> (\<forall>st r. check_site_batteries_staged pg l e = Inr (st, r) \<longrightarrow>
        (\<exists>title c txt. find_exact pg l = Some title \<and> locate_card pg 10 title = Inr c \<and>
           read_text pg c = Inr txt \<and>
           ((st = CardText \<and> extract_exact_ratio txt e = Some r) \<or>
            (st = CardDescendant \<and> extract_exact_ratio txt e = None \<and>
             first_descendant_ratio pg e (slash_descendants pg c) = Some r))))
   \<and> (\<forall>st r. check_site_batteries_0209_staged pg l e = Inr (st, r) \<longrightarrow>
        (st = PartialDiv \<and> main_attempt_0209 pg l e = Inl TimeoutException \<and>
         partial_divs pg l e (all_divs pg) = Some r) \<or>
        (\<exists>site_el c txt. find_ci pg (py_lower l) = Some site_el \<and>
           c = (case class_ancestor_or_div pg site_el of None \<Rightarrow> site_el | Some p \<Rightarrow> p) \<and>
           read_text pg c = Inr txt \<and>
           ((st = CardText \<and> extract_exact_ratio txt e = Some r) \<or>
            (st = CardDescendant \<and> extract_exact_ratio txt e = None \<and>
             first_ratio_stripped pg e (descendants pg c) = Inr (Some r)) \<or>
            (st = DocumentScan \<and> extract_exact_ratio txt e = None \<and>
             first_ratio_stripped pg e (descendants pg c) = Inr None \<and>
             first_ratio_doc pg e (doc_candidates pg e) = Inr (Some r)))))"
proof (intro conjI allI impI)
  assume "find_exact pg l = None"
  then show "check_site_batteries_staged pg l e = Inl TimeoutException"
    by (simp add: check_site_batteries_staged_def)
next
  fix st r assume "check_site_batteries_staged pg l e = Inr (st, r)"
  then show "\<exists>title c txt. find_exact pg l = Some title \<and> locate_card pg 10 title = Inr c \<and>
           read_text pg c = Inr txt \<and>
           ((st = CardText \<and> extract_exact_ratio txt e = Some r) \<or>
            (st = CardDescendant \<and> extract_exact_ratio txt e = None \<and>
             first_descendant_ratio pg e (slash_descendants pg c) = Some r))"
    by (rule staged_popup_order)
next
  fix st r assume a: "check_site_batteries_0209_staged pg l e = Inr (st, r)"
  from staged_0209_cases [OF a]
  show "(st = PartialDiv \<and> main_attempt_0209 pg l e = Inl TimeoutException \<and>
         partial_divs pg l e (all_divs pg) = Some r) \<or>
        (\<exists>site_el c txt. find_ci pg (py_lower l) = Some site_el \<and>
           c = (case class_ancestor_or_div pg site_el of None \<Rightarrow> site_el | Some p \<Rightarrow> p) \<and>
           read_text pg c = Inr txt \<and>
           ((st = CardText \<and> extract_exact_ratio txt e = Some r) \<or>
            (st = CardDescendant \<and> extract_exact_ratio txt e = None \<and>
             first_ratio_stripped pg e (descendants pg c) = Inr (Some r)) \<or>
            (st = DocumentScan \<and> extract_exact_ratio txt e = None \<and>
             first_ratio_stripped pg e (descendants pg c) = Inr None \<and>
             first_ratio_doc pg e (doc_candidates pg e) = Inr (Some r))))"
  proof
    assume "st = PartialDiv \<and> main_attempt_0209 pg l e = Inl TimeoutException \<and>
          partial_divs pg l e (all_divs pg) = Some r"
    then show ?thesis by blast
  next
    assume "st \<noteq> PartialDiv \<and> main_attempt_0209 pg l e = Inr (st, r)"
    then show ?thesis using main_attempt_0209_order [of pg l e st r] by blast
  qed
qed

lemma demo_gamma_staged: "check_site_batteries_staged demo_page ''Gamma'' 12 = Inr (CardDescendant, ''12/12'')"
  by code_simp
lemma demo_beta_exact: "find_exact demo_page ''Beta'' = None"
  by code_simp
lemma demo_delta_0209: "check_site_batteries_0209_staged demo_page ''Delta'' 66 = Inr (DocumentScan, ''99/66'')"
  by code_simp

theorem attempts_in_order_witness:
  "find_exact demo_page ''Beta'' = None \<and>
   check_site_batteries_staged demo_page ''Beta'' 40 = Inl TimeoutException \<and>
   check_site_batteries_staged demo_page ''Gamma'' 12 = Inr (CardDescendant, ''12/12'') \<and>
   (\<exists>title c txt. find_exact demo_page ''Gamma'' = Some title \<and> locate_card demo_page 10 title = Inr c \<and>
      read_text demo_page c = Inr txt \<and> extract_exact_ratio txt 12 = None \<and>
      first_descendant_ratio demo_page 12 (slash_descendants demo_page c) = Some ''12/12'') \<and>
   check_site_batteries_0209_staged demo_page ''Delta'' 66 = Inr (DocumentScan, ''99/66'') \<and>
   (\<exists>site_el c txt. find_ci demo_page (py_lower ''Delta'') = Some site_el \<and>
      c = (case class_ancestor_or_div demo_page site_el of None \<Rightarrow> site_el | Some p \<Rightarrow> p) \<and>
      read_text demo_page c = Inr txt \<and> extract_exact_ratio txt 66 = None \<and>
      first_ratio_stripped demo_page 66 (descendants demo_page c) = Inr None \<and>
      first_ratio_doc demo_page 66 (doc_candidates demo_page 66) = Inr (Some ''99/66''))"
proof -
  have a: "check_site_batteries_staged demo_page ''Beta'' 40 = Inl TimeoutException"
    using attempts_in_order [of demo_page "''Beta''" 40] demo_beta_exact by blast
  have b: "\<exists>title c txt. find_exact demo_page ''Gamma'' = Some title \<and> locate_card demo_page 10 title = Inr c \<and>
      read_text demo_page c = Inr txt \<and> extract_exact_ratio txt 12 = None \<and>
      first_descendant_ratio demo_page 12 (slash_descendants demo_page c) = Some ''12/12''"
    using attempts_in_order [of demo_page "''Gamma''" 12] demo_gamma_staged by blast
  have c: "\<exists>site_el c txt. find_ci demo_page (py_lower ''Delta'') = Some site_el \<and>
      c = (case class_ancestor_or_div demo_page site_el of None \<Rightarrow> site_el | Some p \<Rightarrow> p) \<and>
      read_text demo_page c = Inr txt \<and> extract_exact_ratio txt 66 = None \<and>
      first_ratio_stripped demo_page 66 (descendants demo_page c) = Inr None \<and>
      first_ratio_doc demo_page 66 (doc_candidates demo_page 66) = Inr (Some ''99/66'')"
    using attempts_in_order [of demo_page "''Delta''" 66] demo_delta_0209 by blast
  show ?thesis using a b c demo_beta_exact demo_gamma_staged demo_delta_0209 by blast
qed

end
